theory Spec2Isabelle
  imports Main "HOL-Library.Word"
begin

section \<open>JavaScript strings\<close>

text \<open>
  A JavaScript string is a sequence of UTF-16 code units; \<open>length\<close>, \<open>slice\<close>, the
  offsets of regular-expression matches and \<open>trim\<close> all count code units (the pattern of
  \<open>extractLatestRelease\<close> has no \<open>u\<close> flag).
\<close>

type_synonym code_unit = "16 word"
type_synonym js_string = "code_unit list"

text \<open>A string literal of the source whose characters are all ASCII.\<close>

definition ascii :: "string \<Rightarrow> js_string" where
  "ascii cs = map (\<lambda>c. of_nat (of_char c)) cs"

text \<open>
  \<open>content.slice(from, to)\<close> for non-negative integer arguments: both are clamped to
  the length, and the result is empty when \<open>to \<le> from\<close>.
\<close>

definition slice :: "js_string \<Rightarrow> nat \<Rightarrow> nat \<Rightarrow> js_string" where
  "slice s from to = take (to - from) (drop from s)"

text \<open>
  ECMAScript \<open>LineTerminator\<close>: LF, CR, LINE SEPARATOR, PARAGRAPH SEPARATOR. With the
  \<open>m\<close> flag, \<open>^\<close> matches after any of them.
\<close>

definition isLineTerminator :: "code_unit \<Rightarrow> bool" where
  "isLineTerminator c \<longleftrightarrow> c = 0x000A \<or> c = 0x000D \<or> c = 0x2028 \<or> c = 0x2029"

text \<open>
  ECMAScript \<open>WhiteSpace\<close>: TAB, VT, FF, SP, NBSP, ZWNBSP and the code points of
  category Zs. \<open>String.prototype.trim\<close> removes \<open>WhiteSpace\<close> and
  \<open>LineTerminator\<close> from both ends.
\<close>

definition isWhiteSpace :: "code_unit \<Rightarrow> bool" where
  "isWhiteSpace c \<longleftrightarrow>
     c = 0x0009 \<or> c = 0x000B \<or> c = 0x000C \<or> c = 0x0020 \<or> c = 0x00A0 \<or> c = 0xFEFF \<or>
     c = 0x1680 \<or> (0x2000 \<le> c \<and> c \<le> 0x200A) \<or> c = 0x202F \<or> c = 0x205F \<or> c = 0x3000"

definition isTrimmed :: "code_unit \<Rightarrow> bool" where
  "isTrimmed c \<longleftrightarrow> isWhiteSpace c \<or> isLineTerminator c"

definition trim :: "js_string \<Rightarrow> js_string" where
  "trim s = rev (dropWhile isTrimmed (rev (dropWhile isTrimmed s)))"

section \<open>Regular expressions\<close>

text \<open>
  The fragment of ECMAScript patterns that \<open>versionHeaderRegex\<close> is written in:
  the assertion \<open>^\<close> (multiline), a literal character, \<open>x?\<close>, \<open>[...]+\<close> on a
  character class given by its ranges, a capturing group, and concatenation (which also
  stands for a non-capturing group \<open>(?:...)\<close>).
\<close>

datatype re =
    Bol
  | Chr code_unit
  | Opt re
  | Plus "(code_unit \<times> code_unit) list"
  | Grp re
  | Cat "re list"

fun inClass :: "(code_unit \<times> code_unit) list \<Rightarrow> code_unit \<Rightarrow> bool" where
  "inClass [] c = False"
| "inClass ((lo, hi) # rs) c = ((lo \<le> c \<and> c \<le> hi) \<or> inClass rs c)"

text \<open>
  A matcher state is the current offset and the captures closed so far. \<open>matchR r s st\<close>
  lists the states in which \<open>r\<close> can end when started in \<open>st\<close> on the input \<open>s\<close>, in the
  order in which the backtracking matcher of ECMAScript tries them: a greedy quantifier
  tries the longest repetition first, and \<open>x?\<close> tries \<open>x\<close> before the empty match.
\<close>

type_synonym mstate = "nat \<times> js_string list"

fun matchR :: "re \<Rightarrow> js_string \<Rightarrow> mstate \<Rightarrow> mstate list"
  and matchCat :: "re list \<Rightarrow> js_string \<Rightarrow> mstate \<Rightarrow> mstate list" where
  "matchR Bol s (i, cs) =
     (if i = 0 \<or> (i \<le> length s \<and> isLineTerminator (s ! (i - 1))) then [(i, cs)] else [])"
| "matchR (Chr c) s (i, cs) =
     (if i < length s \<and> s ! i = c then [(i + 1, cs)] else [])"
| "matchR (Opt r) s st = matchR r s st @ [st]"
| "matchR (Plus cl) s (i, cs) =
     map (\<lambda>n. (i + n, cs)) (rev [1 ..< Suc (length (takeWhile (inClass cl) (drop i s)))])"
| "matchR (Grp r) s (i, cs) =
     map (\<lambda>(j, cs'). (j, cs' @ [slice s i j])) (matchR r s (i, cs))"
| "matchR (Cat rs) s st = matchCat rs s st"
| "matchCat [] s st = [st]"
| "matchCat (r # rs) s st = concat (map (matchCat rs s) (matchR r s st))"

text \<open>
  One element of the array that \<open>matchAll\<close> yields: \<open>m.index\<close>, the offset just after
  \<open>m[0]\<close>, and the captures \<open>m[1], m[2], ...\<close>.
\<close>

record regexp_match =
  index :: nat
  matchEnd :: nat
  captures :: "js_string list"

text \<open>The first alternative that the backtracking matcher finds at offset \<open>i\<close>.\<close>

definition execAt :: "re \<Rightarrow> js_string \<Rightarrow> nat \<Rightarrow> regexp_match option" where
  "execAt r s i =
     (case matchR r s (i, []) of
        [] \<Rightarrow> None
      | (e, cs) # _ \<Rightarrow> Some \<lparr>index = i, matchEnd = e, captures = cs\<rparr>)"

text \<open>
  \<open>[...content.matchAll(r)]\<close> for a pattern with the \<open>g\<close> flag: the search starts at
  \<open>lastIndex\<close> and tries every offset up to and including the length; after a match,
  \<open>lastIndex\<close> is the end of the match, moved on by one when the match is empty.
\<close>

function matchAllFrom :: "re \<Rightarrow> js_string \<Rightarrow> nat \<Rightarrow> regexp_match list" where
  "matchAllFrom r s lastIndex =
     (if length s < lastIndex then []
      else case execAt r s lastIndex of
             None \<Rightarrow> matchAllFrom r s (lastIndex + 1)
           | Some m \<Rightarrow>
               m # matchAllFrom r s
                     (if matchEnd m \<le> lastIndex then lastIndex + 1 else matchEnd m))"
  by pat_completeness auto
termination
  by (relation "measure (\<lambda>(r, s, i). Suc (length s) - i)") auto

declare matchAllFrom.simps [simp del]

definition matchAll :: "re \<Rightarrow> js_string \<Rightarrow> regexp_match list" where
  "matchAll r s = matchAllFrom r s 0"

text \<open>\<open>m[k]\<close> for \<open>k \<ge> 1\<close>; \<open>None\<close> is \<open>undefined\<close>.\<close>

definition capture :: "regexp_match \<Rightarrow> nat \<Rightarrow> js_string option" where
  "capture m k = (if 1 \<le> k \<and> k \<le> length (captures m) then Some (captures m ! (k - 1)) else None)"

section \<open>extractLatestRelease\<close>

text \<open>
  \<^verbatim>\<open>/^## \[?(\d+\.\d+\.\d+(?:-[a-zA-Z0-9.]+)?)\]?/gm\<close>
\<close>

definition digit :: "(code_unit \<times> code_unit) list" where
  "digit = [(0x30, 0x39)]"

definition alnumDot :: "(code_unit \<times> code_unit) list" where
  "alnumDot = [(0x61, 0x7A), (0x41, 0x5A), (0x30, 0x39), (0x2E, 0x2E)]"

definition versionHeaderRegex :: re where
  "versionHeaderRegex =
     Cat [Bol, Chr 0x23, Chr 0x23, Chr 0x20, Opt (Chr 0x5B),
          Grp (Cat [Plus digit, Chr 0x2E, Plus digit, Chr 0x2E, Plus digit,
                    Opt (Cat [Chr 0x2D, Plus alnumDot])]),
          Opt (Chr 0x5D)]"

text \<open>
  The fields of \<open>LatestRelease\<close>. \<open>version\<close> is \<open>firstMatch[1]\<close>, which the type checker
  takes for a string; at run time it is \<open>undefined\<close> (\<open>None\<close>) when the group took no part
  in the match.
\<close>

record LatestRelease =
  packageName :: js_string
  version :: "js_string option"
  content :: js_string

text \<open>
  The body of \<open>extractLatestRelease\<close> after the file has been read, as a function of
  the text; \<open>None\<close> is \<open>null\<close>. Here the reads \<open>matches[0]\<close> and \<open>matches[1]\<close>
  are written as patterns; \<open>extractLatestRelease\<close> below has them with their failures.
\<close>

definition extractFromContent :: "js_string \<Rightarrow> js_string \<Rightarrow> LatestRelease option" where
  "extractFromContent text pkg =
     (case matchAll versionHeaderRegex text of
        [] \<Rightarrow> None
      | firstMatch # others \<Rightarrow>
          let startIndex = index firstMatch;
              endIndex = (case others of [] \<Rightarrow> length text | secondMatch # _ \<Rightarrow> index secondMatch);
              section = trim (slice text startIndex endIndex)
          in if length section < 50 then None
             else Some \<lparr>packageName = pkg, version = capture firstMatch 1, content = section\<rparr>)"

section \<open>Reading the changelog\<close>

text \<open>
  What \<open>node:fs\<close> finds at a path: nothing, something that cannot be read as a file
  (a directory, a file without read permission), or a file with its decoded text.
  \<open>readFileSync\<close> throws in the first two cases; \<open>existsSync\<close> is false only in the
  first. Decoding as UTF-8 never throws.
\<close>

datatype file_state = Missing | Unreadable | File js_string

type_synonym filesystem = "js_string \<Rightarrow> file_state"

text \<open>
  What can be thrown while \<open>extractLatestRelease\<close> runs: the error of \<open>readFileSync\<close>,
  and the \<open>TypeError\<close> of ECMAScript (a property read on \<open>undefined\<close>, or
  \<open>matchAll\<close> called with a pattern without the \<open>g\<close> flag).
\<close>

datatype error = ReadError js_string | TypeError

definition existsSync :: "filesystem \<Rightarrow> js_string \<Rightarrow> bool" where
  "existsSync fs p \<longleftrightarrow> fs p \<noteq> Missing"

definition readFileSync :: "filesystem \<Rightarrow> js_string \<Rightarrow> error + js_string" where
  "readFileSync fs p = (case fs p of File t \<Rightarrow> Inr t | _ \<Rightarrow> Inl (ReadError p))"

text \<open>\<open>xs[i]\<close> on an array: \<open>undefined\<close> (\<open>None\<close>) beyond its length.\<close>

definition elemAt :: "'a list \<Rightarrow> nat \<Rightarrow> 'a option" where
  "elemAt xs i = (if i < length xs then Some (xs ! i) else None)"

text \<open>
  Reading a property (\<open>x.index\<close>, \<open>x[1]\<close>) of a value that may be \<open>undefined\<close>:
  on \<open>undefined\<close> the read throws a \<open>TypeError\<close>.
\<close>

definition readProp :: "'a option \<Rightarrow> ('a \<Rightarrow> 'b) \<Rightarrow> error + 'b" where
  "readProp x f = (case x of None \<Rightarrow> Inl TypeError | Some v \<Rightarrow> Inr (f v))"

text \<open>The flags of the pattern literal of \<open>extractLatestRelease\<close>.\<close>

definition versionHeaderFlags :: string where
  "versionHeaderFlags = ''gm''"

text \<open>
  \<open>content.matchAll(r)\<close> with its check of the flags: a pattern without \<open>g\<close> makes
  \<open>matchAll\<close> throw a \<open>TypeError\<close>.
\<close>

definition matchAllOf :: "string \<Rightarrow> re \<Rightarrow> js_string \<Rightarrow> error + regexp_match list" where
  "matchAllOf flags r s = (if CHR ''g'' \<in> set flags then Inr (matchAll r s) else Inl TypeError)"

text \<open>
  \<open>extractLatestRelease(changelogPath, packageName)\<close>, statement by statement, with
  every point at which it can throw: \<open>Inl\<close> is the exception, which the function does
  not catch, and \<open>Inr None\<close> is \<open>null\<close>. The reads \<open>matches[0]\<close> and
  \<open>matches[1]\<close> give \<open>undefined\<close> beyond the length of the array, and the reads
  \<open>firstMatch[1]\<close>, \<open>firstMatch.index\<close> and \<open>matches[1].index\<close> throw on
  \<open>undefined\<close>.
\<close>

definition extractLatestRelease ::
    "filesystem \<Rightarrow> js_string \<Rightarrow> js_string \<Rightarrow> error + LatestRelease option" where
  "extractLatestRelease fs changelogPath pkg =
     (case readFileSync fs changelogPath of
        Inl e \<Rightarrow> Inl e
      | Inr text \<Rightarrow>
          (case matchAllOf versionHeaderFlags versionHeaderRegex text of
             Inl e \<Rightarrow> Inl e
           | Inr matches \<Rightarrow>
               if length matches = 0 then Inr None
               else
                 let firstMatch = elemAt matches 0 in
                 (case readProp firstMatch (\<lambda>m. capture m 1) of
                    Inl e \<Rightarrow> Inl e
                  | Inr v \<Rightarrow>
                 (case readProp firstMatch index of
                    Inl e \<Rightarrow> Inl e
                  | Inr startIndex \<Rightarrow>
                 (case (if 1 < length matches then readProp (elemAt matches 1) index
                        else Inr (length text)) of
                    Inl e \<Rightarrow> Inl e
                  | Inr endIndex \<Rightarrow>
                      let section = trim (slice text startIndex endIndex) in
                      if length section < 50 then Inr None
                      else Inr (Some \<lparr>packageName = pkg, version = v,
                                         content = section\<rparr>))))))"

section \<open>main\<close>

definition MAIN_DOC_PACKAGES :: "js_string list" where
  "MAIN_DOC_PACKAGES =
     [ascii ''instantsearch.js'', ascii ''react-instantsearch'', ascii ''vue-instantsearch'']"

text \<open>
  \<open>path.join\<close> of \<open>node:path\<close> on POSIX: the non-empty arguments are joined with
  \<open>/\<close> and the result is normalised. Normalising drops empty segments and \<open>.\<close>, lets
  \<open>..\<close> remove the segment before it (or keeps it, in a relative path with nothing to
  remove), and keeps a leading and a trailing separator.
\<close>

fun splitSlash :: "js_string \<Rightarrow> js_string list" where
  "splitSlash [] = [[]]"
| "splitSlash (c # cs) =
     (if c = 0x2F then [] # splitSlash cs
      else case splitSlash cs of [] \<Rightarrow> [[c]] | seg # segs \<Rightarrow> (c # seg) # segs)"

fun joinSlash :: "js_string list \<Rightarrow> js_string" where
  "joinSlash [] = []"
| "joinSlash [p] = p"
| "joinSlash (p # ps) = p @ 0x2F # joinSlash ps"

fun normalizeString :: "bool \<Rightarrow> js_string list \<Rightarrow> js_string list \<Rightarrow> js_string list" where
  "normalizeString allowAboveRoot res [] = res"
| "normalizeString allowAboveRoot res (seg # segs) =
     normalizeString allowAboveRoot
       (if seg = [] \<or> seg = ascii ''.'' then res
        else if seg = ascii ''..'' then
          (if res \<noteq> [] \<and> last res \<noteq> ascii ''..'' then butlast res
           else if allowAboveRoot then res @ [ascii ''..'']
           else res)
        else res @ [seg])
       segs"

definition normalize :: "js_string \<Rightarrow> js_string" where
  "normalize path =
     (if path = [] then ascii ''.''
      else
        let isAbsolute = (hd path = 0x2F);
            trailingSeparator = (last path = 0x2F);
            p = joinSlash (normalizeString (\<not> isAbsolute) [] (splitSlash path))
        in if p = [] then
             (if isAbsolute then ascii ''/''
              else if trailingSeparator then ascii ''./'' else ascii ''.'')
           else (if isAbsolute then [0x2F] else []) @ p @
                (if trailingSeparator then [0x2F] else []))"

definition pathJoin :: "js_string list \<Rightarrow> js_string" where
  "pathJoin paths =
     (case filter (\<lambda>p. p \<noteq> []) paths of
        [] \<Rightarrow> ascii ''.''
      | ps \<Rightarrow> normalize (joinSlash ps))"

text \<open>A value spliced into a template literal: \<open>undefined\<close> prints as its name.\<close>

definition shown :: "js_string option \<Rightarrow> js_string" where
  "shown v = (case v of None \<Rightarrow> ascii ''undefined'' | Some x \<Rightarrow> x)"

text \<open>
  The loop of \<open>main\<close> over \<open>MAIN_DOC_PACKAGES\<close>. The state is the lines written by
  \<open>console.log\<close> so far and the \<open>releases\<close> array; the loop ends early when
  \<open>extractLatestRelease\<close> throws.
\<close>

fun collectReleases ::
    "filesystem \<Rightarrow> js_string \<Rightarrow> bool \<Rightarrow> js_string list \<Rightarrow>
     js_string list \<Rightarrow> LatestRelease list \<Rightarrow> js_string list \<times> (error + LatestRelease list)" where
  "collectReleases fs packagesDir verbose [] out releases = (out, Inr releases)"
| "collectReleases fs packagesDir verbose (pkg # pkgs) out releases =
     (let changelogPath = pathJoin [packagesDir, pkg, ascii ''CHANGELOG.md''] in
      if \<not> existsSync fs changelogPath then
        collectReleases fs packagesDir verbose pkgs
          (if verbose then out @ [ascii ''  Skipping '' @ pkg @ ascii '' (no CHANGELOG.md)''] else out)
          releases
      else
        case extractLatestRelease fs changelogPath pkg of
          Inl e \<Rightarrow> (out, Inl e)
        | Inr (Some release) \<Rightarrow>
            collectReleases fs packagesDir verbose pkgs
              (if verbose
               then out @ [ascii ''  Found: '' @ pkg @ ascii ''@'' @ shown (version release)]
               else out)
              (releases @ [release])
        | Inr None \<Rightarrow>
            collectReleases fs packagesDir verbose pkgs
              (if verbose
               then out @ [ascii ''  Skipping '' @ pkg @ ascii '' (no significant changes)'']
               else out)
              releases)"

text \<open>
  How a run of \<open>main\<close> ends, up to the point where the releases have been collected and
  counted: \<open>process.exit\<close> with a status (status 1 comes from the handler
  \<open>main().catch\<close>, reached when \<open>extractLatestRelease\<close> throws), the usage text
  printed and a normal return, or, with releases found, control going on to the assembly
  and output of the prompt. That last part is not modelled: \<open>Continues\<close> says only
  that it is reached, and nothing about how the run ends after it (writing the prompt
  can still fail and end the run with status 1).
\<close>

datatype outcome = ProcessExit nat | Usage | Continues "LatestRelease list"

text \<open>
  \<open>main\<close>, given the file system, the directory that \<open>getRepoRoot\<close> returns and
  \<open>process.argv.slice(2)\<close>. The result is the lines written by \<open>console.log\<close> and
  the outcome. The option \<^verbatim>\<open>--output\<close> is read only after the releases have been
  collected and counted, so it has no part in the outcomes below.
\<close>

definition main :: "filesystem \<Rightarrow> js_string \<Rightarrow> js_string list \<Rightarrow> js_string list \<times> outcome" where
  "main fs repoRoot args =
     (let command = (case args of [] \<Rightarrow> ascii ''help'' | a # _ \<Rightarrow> if a = [] then ascii ''help'' else a);
          verbose = (ascii ''--verbose'' \<in> set args);
          packagesDir = pathJoin [repoRoot, ascii ''packages''];
          out = (if verbose
                 then [ascii ''Repo root: '' @ repoRoot, ascii ''Packages dir: '' @ packagesDir]
                 else [])
      in if command = ascii ''generate-prompt'' then
           (case collectReleases fs packagesDir verbose MAIN_DOC_PACKAGES out [] of
              (out', Inl e) \<Rightarrow> (out', ProcessExit 1)
            | (out', Inr releases) \<Rightarrow>
                if length releases = 0
                then (out' @ [ascii ''No packages with documentation needs detected''], ProcessExit 0)
                else (out', Continues releases))
         else (out, Usage))"

text \<open>The path of a package's changelog, as \<open>main\<close> builds it.\<close>

definition changelogOf :: "js_string \<Rightarrow> js_string \<Rightarrow> js_string" where
  "changelogOf repoRoot pkg =
     pathJoin [pathJoin [repoRoot, ascii ''packages''], pkg, ascii ''CHANGELOG.md'']"

section \<open>The version heading in the specification's words\<close>

text \<open>
  The specification describes a version heading as a line beginning with a heading
  marker followed by an optional bracket, then a dotted triple of non-negative integers,
  then an optional pre-release suffix, then an optional closing bracket. The definitions
  of this section read a heading off the text in that order, without a matcher.
\<close>

definition charAt :: "js_string \<Rightarrow> nat \<Rightarrow> code_unit \<Rightarrow> bool" where
  "charAt s i c \<longleftrightarrow> i < length s \<and> s ! i = c"

text \<open>The length of the longest run of characters of a class that starts at an offset.\<close>

definition runAt :: "(code_unit \<times> code_unit) list \<Rightarrow> js_string \<Rightarrow> nat \<Rightarrow> nat" where
  "runAt cl s i = length (takeWhile (inClass cl) (drop i s))"

definition lineStart :: "js_string \<Rightarrow> nat \<Rightarrow> bool" where
  "lineStart s i \<longleftrightarrow> i = 0 \<or> (i \<le> length s \<and> isLineTerminator (s ! (i - 1)))"

text \<open>
  The end of the pre-release suffix that starts at \<open>d\<close>: a hyphen and a non-empty run of
  letters, digits and dots; \<open>d\<close> itself when there is none.
\<close>

definition suffixEnd :: "js_string \<Rightarrow> nat \<Rightarrow> nat" where
  "suffixEnd s d =
     (if charAt s d 0x2D \<and> 0 < runAt alnumDot s (d + 1) then d + 1 + runAt alnumDot s (d + 1) else d)"

text \<open>
  \<open>specHeadingAt s i\<close> is the version and the end offset of the heading that starts at
  offset \<open>i\<close>, if there is one.
\<close>

definition specHeadingAt :: "js_string \<Rightarrow> nat \<Rightarrow> (js_string \<times> nat) option" where
  "specHeadingAt s i =
     (let a = (if charAt s (i + 3) 0x5B then i + 4 else i + 3);
          b = a + runAt digit s a + 1;
          c = b + runAt digit s b + 1;
          d = c + runAt digit s c;
          e = suffixEnd s d;
          f = (if charAt s e 0x5D then e + 1 else e)
      in if lineStart s i \<and> charAt s i 0x23 \<and> charAt s (i + 1) 0x23 \<and> charAt s (i + 2) 0x20 \<and>
            0 < runAt digit s a \<and> charAt s (b - 1) 0x2E \<and>
            0 < runAt digit s b \<and> charAt s (c - 1) 0x2E \<and>
            0 < runAt digit s c
         then Some (slice s a e, f) else None)"

definition specMatchAt :: "js_string \<Rightarrow> nat \<Rightarrow> regexp_match option" where
  "specMatchAt s i =
     map_option (\<lambda>(v, f). \<lparr>index = i, matchEnd = f, captures = [v]\<rparr>) (specHeadingAt s i)"

text \<open>
  The same, as a statement about the text from offset \<open>i\<close> on: at the start of a line
  stand the marker, an optional opening bracket and a dotted triple of non-empty digit
  strings. (What follows the triple, suffix and closing bracket included, is optional.)
\<close>

definition specIsHeadingLine :: "js_string \<Rightarrow> nat \<Rightarrow> bool" where
  "specIsHeadingLine s i \<longleftrightarrow>
     lineStart s i \<and>
     (\<exists>ob d1 d2 d3 rest.
        (ob = [] \<or> ob = [0x5B]) \<and>
        d1 \<noteq> [] \<and> list_all (inClass digit) d1 \<and>
        d2 \<noteq> [] \<and> list_all (inClass digit) d2 \<and>
        d3 \<noteq> [] \<and> list_all (inClass digit) d3 \<and>
        drop i s = ascii ''## '' @ ob @ d1 @ [0x2E] @ d2 @ [0x2E] @ d3 @ rest)"

text \<open>The offsets of all headings of a text, in order of appearance.\<close>

definition specHeadingOffsets :: "js_string \<Rightarrow> nat list" where
  "specHeadingOffsets s = filter (\<lambda>i. specHeadingAt s i \<noteq> None) [0 ..< Suc (length s)]"

text \<open>
  The section of the first heading: from its offset to the offset of the second heading,
  or to the end of the text when there is no second heading.
\<close>

definition specSectionEnd :: "js_string \<Rightarrow> nat list \<Rightarrow> nat" where
  "specSectionEnd s later = (case later of [] \<Rightarrow> length s | i2 # _ \<Rightarrow> i2)"

text \<open>
  A version in the specification's words: \<open>MAJOR.MINOR.PATCH\<close>, optionally followed by
  a hyphen and a non-empty tag of letters, digits and dots.
\<close>

definition specIsVersion :: "js_string \<Rightarrow> bool" where
  "specIsVersion v \<longleftrightarrow>
     (\<exists>d1 d2 d3 tag.
        d1 \<noteq> [] \<and> list_all (inClass digit) d1 \<and>
        d2 \<noteq> [] \<and> list_all (inClass digit) d2 \<and>
        d3 \<noteq> [] \<and> list_all (inClass digit) d3 \<and>
        list_all (inClass alnumDot) tag \<and>
        (v = d1 @ [0x2E] @ d2 @ [0x2E] @ d3 \<or>
         (tag \<noteq> [] \<and> v = d1 @ [0x2E] @ d2 @ [0x2E] @ d3 @ [0x2D] @ tag)))"

text \<open>The first element of a list of alternatives.\<close>

definition firstAlt :: "'a list \<Rightarrow> 'a option" where
  "firstAlt xs = (case xs of [] \<Rightarrow> None | x # _ \<Rightarrow> Some x)"

section \<open>Example texts\<close>

definition examplePackage :: js_string where
  "examplePackage = ascii ''instantsearch.js''"

definition exampleTwoReleases :: js_string where
  "exampleTwoReleases =
     ascii ''## [4.87.0]\<newline>- Added widget X\<newline>- Fixed bug Y in component Z\<newline>## [4.86.0]\<newline>- Older entry\<newline>''"

definition exampleNoHeading :: js_string where
  "exampleNoHeading = ascii ''# Change Log\<newline>\<newline>Nothing was released yet.\<newline>''"

definition exampleVersionBump :: js_string where
  "exampleVersionBump = ascii ''## [4.87.1]\<newline>- bump\<newline>''"

definition exampleBody :: js_string where
  "exampleBody = ascii ''- Added the frequentlyBoughtTogether widget to the bundle\<newline>''"

definition exampleDeeperHeading :: js_string where
  "exampleDeeperHeading = ascii ''### 1.2.3\<newline>'' @ exampleBody"

definition exampleIndentedHeading :: js_string where
  "exampleIndentedHeading = ascii ''  ## 1.2.3\<newline>'' @ exampleBody"

definition exampleMidLineHeading :: js_string where
  "exampleMidLineHeading = ascii ''Release ## [1.2.3]\<newline>'' @ exampleBody"

definition exampleBracketed :: js_string where
  "exampleBracketed = ascii ''## [1.2.3]\<newline>'' @ exampleBody"

definition exampleUnbracketed :: js_string where
  "exampleUnbracketed = ascii ''## 1.2.3\<newline>'' @ exampleBody"

definition exampleOpenOnly :: js_string where
  "exampleOpenOnly = ascii ''## [1.2.3\<newline>'' @ exampleBody"

definition exampleCloseOnly :: js_string where
  "exampleCloseOnly = ascii ''## 1.2.3]\<newline>'' @ exampleBody"

definition examplePrerelease :: js_string where
  "examplePrerelease = ascii ''## [1.2.3-beta.1]\<newline>'' @ exampleBody"

definition exampleRoot :: js_string where
  "exampleRoot = ascii ''/repo''"

definition exampleFs :: filesystem where
  "exampleFs p =
     (if p = ascii ''/repo/packages/instantsearch.js/CHANGELOG.md'' then File exampleVersionBump
      else if p = ascii ''/repo/packages/react-instantsearch/CHANGELOG.md'' then File exampleNoHeading
      else Missing)"

definition exampleFsUnreadable :: filesystem where
  "exampleFsUnreadable p =
     (if p = ascii ''/repo/packages/instantsearch.js/CHANGELOG.md'' then File exampleVersionBump
      else if p = ascii ''/repo/packages/react-instantsearch/CHANGELOG.md'' then Unreadable
      else Missing)"

section \<open>The matcher on the version heading\<close>

lemma matchR_Chr: "matchR (Chr c) s (i, cs) = (if charAt s i c then [(i + 1, cs)] else [])"
  by (auto simp: charAt_def)

lemma matchCat_Cons: "matchCat (r # rs) s st = concat (map (matchCat rs s) (matchR r s st))"
  by simp

lemma matchCat_Chr:
  "matchCat (Chr c # rs) s (i, cs) = (if charAt s i c then matchCat rs s (i + 1, cs) else [])"
  by (auto simp: charAt_def)

lemma matchCat_Bol:
  "matchCat (Bol # rs) s (i, cs) = (if lineStart s i then matchCat rs s (i, cs) else [])"
  by (auto simp: lineStart_def)

lemma runAt_inClass: "m < runAt cl s i \<Longrightarrow> i + m < length s \<and> inClass cl (s ! (i + m))"
proof -
  assume a: "m < runAt cl s i"
  let ?xs = "drop i s"
  have l: "length (takeWhile (inClass cl) ?xs) \<le> length ?xs" by (rule length_takeWhile_le)
  from a l have m: "m < length ?xs" by (simp add: runAt_def)
  have "takeWhile (inClass cl) ?xs ! m = ?xs ! m" using a by (simp add: runAt_def takeWhile_nth)
  moreover have "takeWhile (inClass cl) ?xs ! m \<in> set (takeWhile (inClass cl) ?xs)"
    using a by (simp add: runAt_def)
  ultimately have "inClass cl (?xs ! m)" by (metis set_takeWhileD)
  with m show ?thesis by (simp add: add.commute)
qed

lemma runAt_stop: "i + runAt cl s i < length s \<Longrightarrow> \<not> inClass cl (s ! (i + runAt cl s i))"
proof -
  assume a: "i + runAt cl s i < length s"
  let ?xs = "drop i s"
  have "length (takeWhile (inClass cl) ?xs) < length ?xs" using a by (simp add: runAt_def)
  then have "\<not> inClass cl (?xs ! length (takeWhile (inClass cl) ?xs))" by (rule nth_length_takeWhile)
  then show ?thesis using a by (simp add: runAt_def add.commute)
qed

lemma concat_map_all_Nil: "(\<And>x. x \<in> set xs \<Longrightarrow> k x = []) \<Longrightarrow> concat (map k xs) = []"
  by (induction xs) auto

lemma matchR_Plus: "matchR (Plus cl) s (i, cs) = map (\<lambda>n. (i + n, cs)) (rev [1 ..< Suc (runAt cl s i)])"
  by (simp add: runAt_def)

lemma matchR_Plus_0: "runAt cl s i = 0 \<Longrightarrow> matchR (Plus cl) s (i, cs) = []"
  by (simp add: matchR_Plus del: matchR.simps)

lemma matchR_Plus_pos:
  "0 < runAt cl s i \<Longrightarrow>
   matchR (Plus cl) s (i, cs) =
     (i + runAt cl s i, cs) # map (\<lambda>n. (i + n, cs)) (rev [1 ..< runAt cl s i])"
  by (simp add: matchR_Plus del: matchR.simps)

lemma matchCat_Plus_Chr:
  assumes "\<not> inClass cl c"
  shows "matchCat (Plus cl # Chr c # rs) s (i, cs) =
     (if 0 < runAt cl s i \<and> charAt s (i + runAt cl s i) c
      then matchCat rs s (i + runAt cl s i + 1, cs) else [])"
proof (cases "0 < runAt cl s i")
  case False
  then show ?thesis by (simp add: matchR_Plus_0 del: matchR.simps)
next
  case True
  have "concat (map (matchCat (Chr c # rs) s) (map (\<lambda>n. (i + n, cs)) (rev [1 ..< runAt cl s i]))) = []"
  proof (rule concat_map_all_Nil)
    fix x assume "x \<in> set (map (\<lambda>n. (i + n, cs)) (rev [1 ..< runAt cl s i]))"
    then obtain n where n: "x = (i + n, cs)" "n < runAt cl s i" by auto
    from runAt_inClass [OF n(2)] assms have "\<not> charAt s (i + n) c" by (auto simp: charAt_def)
    then show "matchCat (Chr c # rs) s x = []" by (simp add: n matchCat_Chr del: matchCat.simps)
  qed
  with True show ?thesis
    by (simp add: matchCat_Cons [of "Plus cl"] matchR_Plus_pos matchCat_Chr
          del: matchR.simps matchCat.simps)
qed

lemma firstAlt_Nil: "firstAlt [] = None" by (simp add: firstAlt_def)

lemma firstAlt_Cons: "firstAlt (x # xs) = Some x" by (simp add: firstAlt_def)

lemma firstAlt_map: "firstAlt (map f xs) = map_option f (firstAlt xs)"
  by (cases xs) (simp_all add: firstAlt_def)

lemma firstAlt_append: "firstAlt (xs @ ys) = (case firstAlt xs of None \<Rightarrow> firstAlt ys | Some x \<Rightarrow> Some x)"
  by (cases xs) (simp_all add: firstAlt_def)

lemma firstAlt_concat_map:
  "(\<And>x. k x \<noteq> []) \<Longrightarrow>
   firstAlt (concat (map k xs)) = (case firstAlt xs of None \<Rightarrow> None | Some x \<Rightarrow> firstAlt (k x))"
  by (cases xs; cases "k (hd xs)") (auto simp: firstAlt_def)

lemma runAt_0: "charAt s i c \<Longrightarrow> \<not> inClass cl c \<Longrightarrow> runAt cl s i = 0"
  by (cases "drop i s") (auto simp: runAt_def charAt_def hd_drop_conv_nth dest: arg_cong [where f = hd])

lemma matchR_Grp_Plus_0:
  "runAt cl s i = 0 \<Longrightarrow> matchR (Grp (Cat (Plus cl # rs))) s (i, cs) = []"
  by (simp add: matchR_Plus_0 del: matchR.simps(4))

lemma matchCat_optBracket:
  "matchCat (Opt (Chr 0x5B) # Grp (Cat (Plus digit # rs)) # rs') s (i, cs) =
   matchCat (Grp (Cat (Plus digit # rs)) # rs') s (if charAt s i 0x5B then i + 1 else i, cs)"
proof (cases "charAt s i 0x5B")
  case True
  then have "runAt digit s i = 0" by (rule runAt_0) (simp add: digit_def)
  then have "matchR (Grp (Cat (Plus digit # rs))) s (i, cs) = []" by (rule matchR_Grp_Plus_0)
  then have "matchCat (Grp (Cat (Plus digit # rs)) # rs') s (i, cs) = []"
    by (simp add: matchCat_Cons [of "Grp _"] del: matchR.simps matchCat.simps)
  with True show ?thesis
    by (simp add: matchCat_Cons [of "Opt _"] matchR_Chr del: matchR.simps(2,4,5) matchCat.simps)
next
  case False
  then show ?thesis
    by (simp add: matchCat_Cons [of "Opt _"] matchR_Chr del: matchR.simps(2,4,5) matchCat.simps)
qed

lemma matchCat_Nil: "matchCat [] s = (\<lambda>st. [st])"
  by (rule ext) simp

lemma matchCat_single: "matchCat [r] s st = matchR r s st"
  by (simp add: matchCat_Cons [of _ "[]"] matchCat_Nil del: matchCat.simps)

lemma firstAlt_suffix:
  "firstAlt (matchR (Opt (Cat [Chr 0x2D, Plus alnumDot])) s (d, cs)) =
   Some (if 0 < (if charAt s d 0x2D then runAt alnumDot s (d + 1) else 0)
         then d + 1 + (if charAt s d 0x2D then runAt alnumDot s (d + 1) else 0) else d, cs)"
proof -
  have "matchR (Opt (Cat [Chr 0x2D, Plus alnumDot])) s (d, cs) =
        (if charAt s d 0x2D then matchR (Plus alnumDot) s (d + 1, cs) else []) @ [(d, cs)]"
    by (simp add: matchCat_Chr matchCat_single del: matchR.simps(2,4) matchCat.simps)
  then show ?thesis
    by (cases "0 < runAt alnumDot s (d + 1)")
       (simp_all add: firstAlt_append firstAlt_Cons firstAlt_Nil matchR_Plus_0 matchR_Plus_pos del: matchR.simps)
qed

lemma firstAlt_suffix': "firstAlt (matchR (Opt (Cat [Chr 0x2D, Plus alnumDot])) s (d, cs)) = Some (suffixEnd s d, cs)"
  by (simp add: firstAlt_suffix suffixEnd_def del: matchR.simps)

lemma matchR_Opt_nonempty: "matchR (Opt r) s st \<noteq> []"
  by simp

lemma firstAlt_lastDigits:
  "firstAlt (matchCat [Plus digit, Opt (Cat [Chr 0x2D, Plus alnumDot])] s (c, cs)) =
     (if 0 < runAt digit s c then Some (suffixEnd s (c + runAt digit s c), cs) else None)"
proof -
  have "firstAlt (matchCat [Plus digit, Opt (Cat [Chr 0x2D, Plus alnumDot])] s (c, cs)) =
        (case firstAlt (matchR (Plus digit) s (c, cs)) of None \<Rightarrow> None
         | Some x \<Rightarrow> firstAlt (matchCat [Opt (Cat [Chr 0x2D, Plus alnumDot])] s x))"
    unfolding matchCat_Cons [of "Plus digit"]
    by (rule firstAlt_concat_map) (simp only: matchCat_single matchR_Opt_nonempty not_False_eq_True)
  then show ?thesis
    by (cases "0 < runAt digit s c")
       (simp_all add: matchR_Plus_0 matchR_Plus_pos firstAlt_Nil firstAlt_Cons matchCat_single firstAlt_suffix'
          del: matchR.simps matchCat.simps)
qed

lemma firstAlt_group:
  "firstAlt (matchR (Grp (Cat [Plus digit, Chr 0x2E, Plus digit, Chr 0x2E, Plus digit,
                            Opt (Cat [Chr 0x2D, Plus alnumDot])])) s (a, cs)) =
   (let b = a + runAt digit s a + 1; c = b + runAt digit s b + 1;
        e = suffixEnd s (c + runAt digit s c)
    in if 0 < runAt digit s a \<and> charAt s (b - 1) 0x2E \<and> 0 < runAt digit s b \<and>
          charAt s (c - 1) 0x2E \<and> 0 < runAt digit s c
       then Some (e, cs @ [slice s a e]) else None)"
proof -
  have nd: "\<not> inClass digit 0x2E" by (simp add: digit_def)
  have "matchR (Grp (Cat [Plus digit, Chr 0x2E, Plus digit, Chr 0x2E, Plus digit,
                            Opt (Cat [Chr 0x2D, Plus alnumDot])])) s (a, cs) =
        map (\<lambda>(j, cs'). (j, cs' @ [slice s a j]))
          (matchCat [Plus digit, Chr 0x2E, Plus digit, Chr 0x2E, Plus digit,
                            Opt (Cat [Chr 0x2D, Plus alnumDot])] s (a, cs))"
    by simp
  then show ?thesis
    by (simp add: firstAlt_map matchCat_Plus_Chr [OF nd] firstAlt_lastDigits firstAlt_Nil Let_def
          del: matchR.simps matchCat.simps)
qed

lemma firstAlt_closeBracket:
  "firstAlt (matchCat [Opt (Chr 0x5D)] s (e, cs)) = Some (if charAt s e 0x5D then e + 1 else e, cs)"
  by (simp add: matchCat_single matchR_Chr firstAlt_append firstAlt_Cons firstAlt_Nil firstAlt_def
        del: matchR.simps(2) matchCat.simps)

lemma execAt_first:
  "execAt r s i = map_option (\<lambda>(e, cs). \<lparr>index = i, matchEnd = e, captures = cs\<rparr>) (firstAlt (matchR r s (i, [])))"
  by (simp add: execAt_def firstAlt_def split: list.splits)

lemma firstAlt_versionHeaderRegex:
  "firstAlt (matchR versionHeaderRegex s (i, [])) = map_option (\<lambda>(v, f). (f, [v])) (specHeadingAt s i)"
proof -
  let ?G = "Grp (Cat [Plus digit, Chr 0x2E, Plus digit, Chr 0x2E, Plus digit,
                    Opt (Cat [Chr 0x2D, Plus alnumDot])])"
  let ?a = "if charAt s (i + 3) 0x5B then i + 4 else i + 3"
  have 1: "matchR versionHeaderRegex s (i, []) =
     (if lineStart s i \<and> charAt s i 0x23 \<and> charAt s (i + 1) 0x23 \<and> charAt s (i + 2) 0x20
      then matchCat [?G, Opt (Chr 0x5D)] s (?a, []) else [])"
    unfolding versionHeaderRegex_def matchR.simps(6) matchCat_Bol matchCat_Chr matchCat_optBracket
    by (simp del: matchR.simps matchCat.simps add: numeral_eq_Suc)
  have 2: "firstAlt (matchCat [?G, Opt (Chr 0x5D)] s (a, [])) =
     (case firstAlt (matchR ?G s (a, [])) of None \<Rightarrow> None
      | Some x \<Rightarrow> firstAlt (matchCat [Opt (Chr 0x5D)] s x))" for a
    unfolding matchCat_Cons [of ?G]
    by (rule firstAlt_concat_map) (simp only: matchCat_single matchR_Opt_nonempty not_False_eq_True)
  show ?thesis
    unfolding 1
    by (simp add: 2 firstAlt_group firstAlt_closeBracket firstAlt_Nil specHeadingAt_def Let_def suffixEnd_def
          del: matchR.simps matchCat.simps)
qed

lemma digit_not_terminator: "inClass digit x \<Longrightarrow> \<not> isLineTerminator x"
  by (auto simp: digit_def isLineTerminator_def)

lemma alnumDot_not_terminator: "inClass alnumDot x \<Longrightarrow> \<not> isLineTerminator x"
  by (auto simp: alnumDot_def isLineTerminator_def)

lemma run_region:
  assumes "a \<le> j" "j < a + runAt cl s a"
  shows "j < length s \<and> inClass cl (s ! j)"
proof -
  from assms have "j - a < runAt cl s a" by simp
  from runAt_inClass [OF this] assms(1) show ?thesis by simp
qed

lemma specHeadingAt_chars:
  assumes h: "specHeadingAt s p = Some (v, f)" and j: "p \<le> j" "j < f"
  shows "j < length s \<and> \<not> isLineTerminator (s ! j)"
proof -
  define a where "a = (if charAt s (p + 3) 0x5B then p + 4 else p + 3)"
  define b where "b = a + runAt digit s a + 1"
  define c where "c = b + runAt digit s b + 1"
  define d where "d = c + runAt digit s c"
  define e where "e = suffixEnd s d"
  have eq: "specHeadingAt s p =
      (if lineStart s p \<and> charAt s p 0x23 \<and> charAt s (p + 1) 0x23 \<and> charAt s (p + 2) 0x20 \<and>
            0 < runAt digit s a \<and> charAt s (b - 1) 0x2E \<and>
            0 < runAt digit s b \<and> charAt s (c - 1) 0x2E \<and>
            0 < runAt digit s c
       then Some (slice s a e, if charAt s e 0x5D then e + 1 else e) else None)"
    unfolding specHeadingAt_def Let_def a_def b_def c_def d_def e_def by (rule refl)
  from h have facts: "charAt s p 0x23" "charAt s (p + 1) 0x23" "charAt s (p + 2) 0x20"
      "charAt s (b - 1) 0x2E" "charAt s (c - 1) 0x2E"
      "f = (if charAt s e 0x5D then e + 1 else e)"
    unfolding eq by (simp_all split: if_splits)
  have ok: "charAt s j x \<Longrightarrow> \<not> isLineTerminator x \<Longrightarrow> ?thesis" for x
    by (auto simp: charAt_def)
  have e_cases: "e = d \<or> (charAt s d 0x2D \<and> e = d + 1 + runAt alnumDot s (d + 1))"
    by (auto simp: e_def suffixEnd_def)
  show ?thesis
  proof (cases "j < a")
    case True
    then have "j = p \<or> j = p + 1 \<or> j = p + 2 \<or> (j = p + 3 \<and> charAt s (p + 3) 0x5B)"
      using j(1) by (auto simp: a_def split: if_splits)
    then show ?thesis
      using facts(1,2,3) by (auto simp: charAt_def isLineTerminator_def)
  next
    case ja: False
    show ?thesis
    proof (cases "j < a + runAt digit s a")
      case True
      with ja have "a \<le> j" by simp
      from run_region [OF this True] show ?thesis by (simp add: digit_not_terminator)
    next
      case False
      show ?thesis
      proof (cases "j < b")
        case True
        with False have "j = b - 1" by (simp add: b_def)
        with facts(4) show ?thesis by (intro ok [of "0x2E"]) (simp_all add: isLineTerminator_def)
      next
        case jb: False
        show ?thesis
        proof (cases "j < b + runAt digit s b")
          case True
          with jb have "b \<le> j" by simp
          from run_region [OF this True] show ?thesis by (simp add: digit_not_terminator)
        next
          case False
          show ?thesis
          proof (cases "j < c")
            case True
            with False have "j = c - 1" by (simp add: c_def)
            with facts(5) show ?thesis by (intro ok [of "0x2E"]) (simp_all add: isLineTerminator_def)
          next
            case jc: False
            show ?thesis
            proof (cases "j < d")
              case True
              with jc have "c \<le> j" "j < c + runAt digit s c" by (simp_all add: d_def)
              from run_region [OF this] show ?thesis by (simp add: digit_not_terminator)
            next
              case jd: False
              show ?thesis
              proof (cases "j < e")
                case True
                with e_cases jd have dash: "charAt s d 0x2D" and ee: "e = d + 1 + runAt alnumDot s (d + 1)"
                  by auto
                show ?thesis
                proof (cases "j = d")
                  case True
                  with dash show ?thesis by (intro ok [of "0x2D"]) (simp_all add: isLineTerminator_def)
                next
                  case False
                  with jd \<open>j < e\<close> ee have "d + 1 \<le> j" "j < d + 1 + runAt alnumDot s (d + 1)" by simp_all
                  from run_region [OF this] show ?thesis by (simp add: alnumDot_not_terminator)
                qed
              next
                case False
                with j(2) facts(6) have "j = e \<and> charAt s e 0x5D" by (auto split: if_splits)
                then show ?thesis by (intro ok [of "0x5D"]) (simp_all add: isLineTerminator_def)
              qed
            qed
          qed
        qed
      qed
    qed
  qed
qed

lemma execAt_versionHeaderRegex: "execAt versionHeaderRegex s i = specMatchAt s i"
  by (cases "specHeadingAt s i")
     (auto simp: execAt_first firstAlt_versionHeaderRegex specMatchAt_def)

lemma specHeadingAt_end:
  assumes "specHeadingAt s p = Some (v, f)"
  shows "p + 8 \<le> f"
  using assms unfolding specHeadingAt_def Let_def suffixEnd_def
  by (simp split: if_splits)

lemma specHeadingAt_bound:
  assumes h: "specHeadingAt s p = Some (v, f)"
  shows "f \<le> length s"
proof -
  from specHeadingAt_end [OF h] have "p \<le> f - 1" "f - 1 < f" by simp_all
  from specHeadingAt_chars [OF h this] specHeadingAt_end [OF h] show ?thesis by arith
qed

lemma no_heading_inside:
  assumes h: "specHeadingAt s p = Some (v, f)" and j: "p < j" "j < f"
  shows "specHeadingAt s j = None"
proof -
  from j have "p \<le> j - 1" "j - 1 < f" by simp_all
  from specHeadingAt_chars [OF h this] j(1) have "\<not> lineStart s j"
    by (simp add: lineStart_def)
  then show ?thesis by (simp add: specHeadingAt_def Let_def)
qed

lemma map_filter_all_None: "(\<And>x. x \<in> set xs \<Longrightarrow> f x = None) \<Longrightarrow> List.map_filter f xs = []"
  by (induction xs) simp_all

lemma map_filter_append: "List.map_filter f (xs @ ys) = List.map_filter f xs @ List.map_filter f ys"
  by (simp add: List.map_filter_def)

lemma matchAllFrom_versionHeaderRegex:
  "matchAllFrom versionHeaderRegex s p = List.map_filter (specMatchAt s) [p ..< Suc (length s)]"
proof (induction "Suc (length s) - p" arbitrary: p rule: less_induct)
  case less
  show ?case
  proof (cases "length s < p")
    case True
    then show ?thesis by (subst matchAllFrom.simps) (simp del: upt_Suc)
  next
    case False
    then have upt: "[p ..< Suc (length s)] = p # [Suc p ..< Suc (length s)]"
      by (simp add: upt_conv_Cons del: upt_Suc)
    show ?thesis
    proof (cases "specHeadingAt s p")
      case None
      then have none: "specMatchAt s p = None" by (simp add: specMatchAt_def)
      have "matchAllFrom versionHeaderRegex s p = matchAllFrom versionHeaderRegex s (p + 1)"
        using False none by (subst matchAllFrom.simps) (simp add: execAt_versionHeaderRegex)
      also have "\<dots> = List.map_filter (specMatchAt s) [p + 1 ..< Suc (length s)]"
        using False by (intro less) simp
      finally show ?thesis by (simp add: upt none del: upt_Suc)
    next
      case (Some vf)
      obtain v f where vf: "vf = (v, f)" by (cases vf)
      with Some have h: "specHeadingAt s p = Some (v, f)" by simp
      let ?m = "\<lparr>index = p, matchEnd = f, captures = [v]\<rparr>"
      have m: "specMatchAt s p = Some ?m" by (simp add: specMatchAt_def h)
      from specHeadingAt_end [OF h] have pf: "p < f" by simp
      from specHeadingAt_bound [OF h] have fl: "f \<le> length s" .
      have "matchAllFrom versionHeaderRegex s p = ?m # matchAllFrom versionHeaderRegex s f"
        using False m pf by (subst matchAllFrom.simps) (simp add: execAt_versionHeaderRegex)
      also have "matchAllFrom versionHeaderRegex s f = List.map_filter (specMatchAt s) [f ..< Suc (length s)]"
        using pf fl by (intro less) simp
      finally have 1: "matchAllFrom versionHeaderRegex s p =
          ?m # List.map_filter (specMatchAt s) [f ..< Suc (length s)]" .
      have split: "[Suc p ..< Suc (length s)] = [Suc p ..< f] @ [f ..< Suc (length s)]"
        using pf fl upt_add_eq_append [of "Suc p" f "Suc (length s) - f"] by (simp del: upt_Suc)
      have "List.map_filter (specMatchAt s) [Suc p ..< f] = []"
      proof (rule map_filter_all_None)
        fix x assume "x \<in> set [Suc p ..< f]"
        then have "p < x" "x < f" by simp_all
        from no_heading_inside [OF h this] show "specMatchAt s x = None"
          by (simp add: specMatchAt_def)
      qed
      then show ?thesis by (simp add: 1 upt m split map_filter_append del: upt_Suc)
    qed
  qed
qed

lemma matchAll_versionHeaderRegex:
  "matchAll versionHeaderRegex s = List.map_filter (specMatchAt s) [0 ..< Suc (length s)]"
  by (simp add: matchAll_def matchAllFrom_versionHeaderRegex del: upt_Suc)

lemma index_specMatchAt: "specMatchAt s i = Some m \<Longrightarrow> index m = i"
  by (auto simp: specMatchAt_def)

lemma map_index_map_filter:
  "map index (List.map_filter (specMatchAt s) xs) = filter (\<lambda>i. specHeadingAt s i \<noteq> None) xs"
  by (induction xs) (auto simp: specMatchAt_def split: option.splits)

lemma matchAll_offsets: "map index (matchAll versionHeaderRegex s) = specHeadingOffsets s"
  by (simp add: matchAll_versionHeaderRegex map_index_map_filter specHeadingOffsets_def del: upt_Suc)

lemma specMatchAt_None: "specMatchAt s i = None \<longleftrightarrow> specHeadingAt s i = None"
  by (simp add: specMatchAt_def)

lemma matchAll_map:
  "matchAll versionHeaderRegex s = map (the \<circ> specMatchAt s) (specHeadingOffsets s)"
  by (simp add: matchAll_versionHeaderRegex List.map_filter_def specHeadingOffsets_def
        specMatchAt_None del: upt_Suc)

lemma specHeadingOffsets_member:
  "i \<in> set (specHeadingOffsets s) \<longleftrightarrow> specHeadingAt s i \<noteq> None"
proof -
  have "specHeadingAt s i \<noteq> None \<Longrightarrow> i < Suc (length s)"
    by (auto simp: specHeadingAt_def Let_def charAt_def split: if_splits)
  then show ?thesis by (auto simp: specHeadingOffsets_def simp del: upt_Suc)
qed

lemma specHeadingOffsets_sorted: "sorted_wrt (<) (specHeadingOffsets s)"
  unfolding specHeadingOffsets_def by (rule sorted_wrt_filter) (rule sorted_wrt_upt)

lemma extractFromContent_spec:
  "extractFromContent text pkg =
     (case specHeadingOffsets text of
        [] \<Rightarrow> None
      | i1 # later \<Rightarrow>
          if length (trim (slice text i1 (specSectionEnd text later))) < 50 then None
          else Some \<lparr>packageName = pkg, version = map_option fst (specHeadingAt text i1),
                     content = trim (slice text i1 (specSectionEnd text later))\<rparr>)"
proof (cases "specHeadingOffsets text")
  case Nil
  then show ?thesis by (simp add: extractFromContent_def matchAll_map)
next
  case (Cons i1 later)
  then have "i1 \<in> set (specHeadingOffsets text)" by simp
  then obtain v f where h: "specHeadingAt text i1 = Some (v, f)"
    by (auto simp: specHeadingOffsets_member)
  have idx: "index ((the \<circ> specMatchAt text) i) = i" if "i \<in> set (specHeadingOffsets text)" for i
    using that by (auto simp: specHeadingOffsets_member specMatchAt_def)
  have e: "(case map (the \<circ> specMatchAt text) later of [] \<Rightarrow> length text | m # _ \<Rightarrow> index m) =
           specSectionEnd text later"
    using idx Cons by (cases later) (simp_all add: specSectionEnd_def)
  show ?thesis
    by (simp add: extractFromContent_def matchAll_map Cons Let_def e idx specMatchAt_def h capture_def)
qed

lemma trim_prefix: "\<exists>m. rev (dropWhile P (rev xs)) = take m xs"
  by (metis dropWhile_eq_drop rev_drop rev_rev_ident)

lemma slice_hd: "charAt s i c \<Longrightarrow> i < e \<Longrightarrow> slice s i e = c # slice s (Suc i) e"
proof -
  assume a: "charAt s i c" "i < e"
  then have "drop i s = c # drop (Suc i) s"
    using Cons_nth_drop_Suc [of i s] by (auto simp: charAt_def)
  moreover from a(2) obtain k where "e - i = Suc k" "e - Suc i = k" by (cases "e - i") auto
  ultimately show ?thesis by (simp add: slice_def)
qed

lemma trim_slice:
  assumes "charAt s i 0x23" "i \<le> e"
  shows "\<exists>n. n \<le> e \<and> trim (slice s i e) = slice s i n"
proof -
  have dw: "dropWhile isTrimmed (slice s i e) = slice s i e"
  proof (cases "i < e")
    case True
    from slice_hd [OF assms(1) True] show ?thesis
      by (simp add: isTrimmed_def isWhiteSpace_def isLineTerminator_def)
  next
    case False
    then show ?thesis by (simp add: slice_def)
  qed
  obtain m where "rev (dropWhile isTrimmed (rev (slice s i e))) = take m (slice s i e)"
    using trim_prefix by blast
  then have "trim (slice s i e) = take m (slice s i e)"
    by (simp add: trim_def dw)
  then have "trim (slice s i e) = slice s i (i + min m (e - i))"
    by (simp add: slice_def)
  moreover have "i + min m (e - i) \<le> e" using assms(2) by simp
  ultimately show ?thesis by blast
qed

lemma specSectionEnd_bounds:
  assumes "specHeadingOffsets text = i1 # later"
  shows "i1 < specSectionEnd text later \<and> specSectionEnd text later \<le> length text"
proof -
  from assms have "i1 \<in> set (specHeadingOffsets text)" by simp
  then obtain v f where h: "specHeadingAt text i1 = Some (v, f)"
    by (auto simp: specHeadingOffsets_member)
  from specHeadingAt_end [OF h] specHeadingAt_bound [OF h] have 1: "i1 < length text" by simp
  show ?thesis
  proof (cases later)
    case Nil
    with 1 show ?thesis by (simp add: specSectionEnd_def)
  next
    case (Cons i2 rest)
    with assms specHeadingOffsets_sorted [of "text"] have "i1 < i2" by simp
    moreover from Cons assms have "i2 \<in> set (specHeadingOffsets text)" by simp
    then obtain v2 f2 where h2: "specHeadingAt text i2 = Some (v2, f2)"
      by (auto simp: specHeadingOffsets_member)
    from specHeadingAt_end [OF h2] specHeadingAt_bound [OF h2] have "i2 \<le> length text" by simp
    ultimately show ?thesis using Cons by (simp add: specSectionEnd_def)
  qed
qed

section \<open>Reading a readable file\<close>

text \<open>
  None of the property reads of \<open>extractLatestRelease\<close> meets \<open>undefined\<close>: the
  return on an empty array protects \<open>matches[0]\<close>, and the test of the length protects
  \<open>matches[1]\<close>. So on a readable file the function returns what \<open>extractFromContent\<close>
  computes from the text.
\<close>

lemma extractLatestRelease_readable:
  assumes "fs path = File text"
  shows "extractLatestRelease fs path pkg = Inr (extractFromContent text pkg)"
proof (cases "matchAll versionHeaderRegex text")
  case Nil
  with assms show ?thesis
    by (simp add: extractLatestRelease_def readFileSync_def matchAllOf_def versionHeaderFlags_def
          extractFromContent_def)
next
  case (Cons m ms)
  with assms show ?thesis
    by (cases ms)
       (simp_all add: extractLatestRelease_def readFileSync_def matchAllOf_def
          versionHeaderFlags_def extractFromContent_def elemAt_def readProp_def Let_def)
qed

lemma extractLatestRelease_unreadable:
  assumes "fs path = Missing \<or> fs path = Unreadable"
  shows "extractLatestRelease fs path pkg = Inl (ReadError path)"
  using assms by (auto simp: extractLatestRelease_def readFileSync_def)

section \<open>Evaluating the examples\<close>

lemmas eval_matchAll =
  ascii_def matchAll_def matchAllFrom.simps execAt_def versionHeaderRegex_def
  digit_def alnumDot_def isLineTerminator_def slice_def

lemmas eval_trim =
  ascii_def slice_def trim_def isTrimmed_def isWhiteSpace_def isLineTerminator_def capture_def

lemma exampleTwoReleases_matchAll:
  "matchAll versionHeaderRegex exampleTwoReleases =
     [\<lparr>index = 0, matchEnd = 11, captures = [ascii ''4.87.0'']\<rparr>,
      \<lparr>index = 58, matchEnd = 69, captures = [ascii ''4.86.0'']\<rparr>]"
  by (simp add: exampleTwoReleases_def eval_matchAll)

lemma exampleTwoReleases_offsets: "specHeadingOffsets exampleTwoReleases = [0, 58]"
  unfolding matchAll_offsets [symmetric] exampleTwoReleases_matchAll by simp

lemma exampleNoHeading_matchAll: "matchAll versionHeaderRegex exampleNoHeading = []"
  by (simp add: exampleNoHeading_def eval_matchAll)

lemma exampleNoHeading_offsets: "specHeadingOffsets exampleNoHeading = []"
  unfolding matchAll_offsets [symmetric] exampleNoHeading_matchAll by simp

section \<open>The section of the latest release\<close>

text \<open>
  C1. For every text with at least one version heading, the extracted section starts at
  the offset of the first heading and ends at the offset of the second heading when there
  are two or more, and at the end of the text when there is exactly one: the result is
  the trimmed slice between these offsets when that has at least 50 code units (and
  \<open>null\<close> otherwise). The trimmed body is itself a slice of the text that starts at the
  first heading and ends at or before the section end, so it holds nothing of the second
  heading's line or of what follows it.
\<close>

theorem C1_section_bounds:
  assumes "specHeadingOffsets text = i1 # later"
  shows "extractFromContent text pkg =
           (if length (trim (slice text i1 (specSectionEnd text later))) < 50 then None
            else Some \<lparr>packageName = pkg, version = map_option fst (specHeadingAt text i1),
                       content = trim (slice text i1 (specSectionEnd text later))\<rparr>) \<and>
         i1 < specSectionEnd text later \<and> specSectionEnd text later \<le> length text \<and>
         (\<exists>n. n \<le> specSectionEnd text later \<and>
              trim (slice text i1 (specSectionEnd text later)) = slice text i1 n)"
proof -
  from assms have "i1 \<in> set (specHeadingOffsets text)" by simp
  then have c: "charAt text i1 0x23"
    by (auto simp: specHeadingOffsets_member specHeadingAt_def Let_def split: if_splits)
  from specSectionEnd_bounds [OF assms] have b: "i1 \<le> specSectionEnd text later" by simp
  show ?thesis
    using specSectionEnd_bounds [OF assms] trim_slice [OF c b]
    by (simp add: extractFromContent_spec assms)
qed

theorem C1_section_bounds_witness:
  "specHeadingOffsets exampleTwoReleases = 0 # [58] \<and>
   (extractFromContent exampleTwoReleases examplePackage =
           (if length (trim (slice exampleTwoReleases 0 (specSectionEnd exampleTwoReleases [58]))) < 50
            then None
            else Some \<lparr>packageName = examplePackage,
                       version = map_option fst (specHeadingAt exampleTwoReleases 0),
                       content = trim (slice exampleTwoReleases 0
                                   (specSectionEnd exampleTwoReleases [58]))\<rparr>) \<and>
         0 < specSectionEnd exampleTwoReleases [58] \<and>
         specSectionEnd exampleTwoReleases [58] \<le> length exampleTwoReleases \<and>
         (\<exists>n. n \<le> specSectionEnd exampleTwoReleases [58] \<and>
              trim (slice exampleTwoReleases 0 (specSectionEnd exampleTwoReleases [58])) =
              slice exampleTwoReleases 0 n))"
proof -
  have h: "specHeadingOffsets exampleTwoReleases = 0 # [58]"
    by (simp add: exampleTwoReleases_offsets)
  from h C1_section_bounds [OF h, of examplePackage] show ?thesis by (rule conjI)
qed

lemma exampleVersionBump_matchAll:
  "matchAll versionHeaderRegex exampleVersionBump =
     [\<lparr>index = 0, matchEnd = 11, captures = [ascii ''4.87.1'']\<rparr>]"
  by (simp add: exampleVersionBump_def eval_matchAll)

lemma exampleVersionBump_offsets: "specHeadingOffsets exampleVersionBump = [0]"
  unfolding matchAll_offsets [symmetric] exampleVersionBump_matchAll by simp

lemma exampleVersionBump_extract: "extractFromContent exampleVersionBump pkg = None"
  unfolding extractFromContent_def exampleVersionBump_matchAll
  by (simp add: exampleVersionBump_def eval_trim)

lemma exampleNoHeading_extract: "extractFromContent exampleNoHeading pkg = None"
  unfolding extractFromContent_def exampleNoHeading_matchAll by simp

text \<open>
  C3. For every text whose first version section, trimmed, is shorter than 50 code units,
  the result is \<open>null\<close> although a heading was found; the text
  \<^verbatim>\<open>## [4.87.1]\n- bump\n\<close> is such a text.
\<close>

theorem C3_trivial_section:
  "(specHeadingOffsets text = i1 # later \<and>
    length (trim (slice text i1 (specSectionEnd text later))) < 50 \<longrightarrow>
      extractFromContent text pkg = None) \<and>
   extractFromContent exampleVersionBump pkg = None"
proof
  show "specHeadingOffsets text = i1 # later \<and>
    length (trim (slice text i1 (specSectionEnd text later))) < 50 \<longrightarrow>
      extractFromContent text pkg = None"
    by (simp add: extractFromContent_spec)
  show "extractFromContent exampleVersionBump pkg = None"
    unfolding extractFromContent_def exampleVersionBump_matchAll
    by (simp add: exampleVersionBump_def eval_trim)
qed

theorem C3_trivial_section_witness:
  "specHeadingOffsets exampleVersionBump = 0 # [] \<and>
   length (trim (slice exampleVersionBump 0 (specSectionEnd exampleVersionBump []))) < 50 \<and>
   extractFromContent exampleVersionBump examplePackage = None"
proof -
  have h: "specHeadingOffsets exampleVersionBump = 0 # []"
    by (simp add: exampleVersionBump_offsets)
  have l: "length (trim (slice exampleVersionBump 0 (specSectionEnd exampleVersionBump []))) < 50"
    by (simp add: specSectionEnd_def exampleVersionBump_def eval_trim)
  from C3_trivial_section [of exampleVersionBump 0 "[]" examplePackage] h l
  show ?thesis by blast
qed

section \<open>The forms of a heading\<close>

lemma matchAll_head:
  assumes "specHeadingAt s 0 = Some (v, f)"
  shows "\<exists>ms. matchAll versionHeaderRegex s = \<lparr>index = 0, matchEnd = f, captures = [v]\<rparr> # ms"
  using assms
  by (simp add: matchAll_versionHeaderRegex upt_conv_Cons specMatchAt_def del: upt_Suc)

lemma extract_version_of_first:
  assumes "matchAll versionHeaderRegex s = \<lparr>index = i, matchEnd = f, captures = [v]\<rparr> # ms"
  shows "extractFromContent s pkg = None \<or>
         map_option version (extractFromContent s pkg) = Some (Some v)"
  by (simp add: extractFromContent_def assms Let_def capture_def)

lemmas eval_heading =
  specHeadingAt_def charAt_def runAt_def lineStart_def suffixEnd_def ascii_def slice_def
  digit_def alnumDot_def Let_def

lemma bracketed_heading:
  "specHeadingAt (ascii ''## [1.2.3]'' @ 0x0A # rest) 0 = Some (ascii ''1.2.3'', 10)"
  by (simp add: eval_heading)

lemma unbracketed_heading:
  "specHeadingAt (ascii ''## 1.2.3'' @ 0x0A # rest) 0 = Some (ascii ''1.2.3'', 8)"
  by (simp add: eval_heading)

lemma open_only_heading:
  "specHeadingAt (ascii ''## [1.2.3'' @ 0x0A # rest) 0 = Some (ascii ''1.2.3'', 9)"
  by (simp add: eval_heading)

lemma close_only_heading:
  "specHeadingAt (ascii ''## 1.2.3]'' @ 0x0A # rest) 0 = Some (ascii ''1.2.3'', 9)"
  by (simp add: eval_heading)

lemma exampleBracketed_extract:
  "extractFromContent exampleBracketed pkg =
     Some \<lparr>packageName = pkg, version = Some (ascii ''1.2.3''),
           content = ascii ''## [1.2.3]\<newline>- Added the frequentlyBoughtTogether widget to the bundle''\<rparr>"
proof -
  have "matchAll versionHeaderRegex exampleBracketed =
          [\<lparr>index = 0, matchEnd = 10, captures = [ascii ''1.2.3'']\<rparr>]"
    by (simp add: exampleBracketed_def exampleBody_def eval_matchAll)
  then show ?thesis
    unfolding extractFromContent_def
    by (simp add: exampleBracketed_def exampleBody_def eval_trim)
qed

lemma exampleUnbracketed_extract:
  "extractFromContent exampleUnbracketed pkg =
     Some \<lparr>packageName = pkg, version = Some (ascii ''1.2.3''),
           content = ascii ''## 1.2.3\<newline>- Added the frequentlyBoughtTogether widget to the bundle''\<rparr>"
proof -
  have "matchAll versionHeaderRegex exampleUnbracketed =
          [\<lparr>index = 0, matchEnd = 8, captures = [ascii ''1.2.3'']\<rparr>]"
    by (simp add: exampleUnbracketed_def exampleBody_def eval_matchAll)
  then show ?thesis
    unfolding extractFromContent_def
    by (simp add: exampleUnbracketed_def exampleBody_def eval_trim)
qed

lemma exampleOpenOnly_extract:
  "extractFromContent exampleOpenOnly pkg =
     Some \<lparr>packageName = pkg, version = Some (ascii ''1.2.3''),
           content = ascii ''## [1.2.3\<newline>- Added the frequentlyBoughtTogether widget to the bundle''\<rparr>"
proof -
  have "matchAll versionHeaderRegex exampleOpenOnly =
          [\<lparr>index = 0, matchEnd = 9, captures = [ascii ''1.2.3'']\<rparr>]"
    by (simp add: exampleOpenOnly_def exampleBody_def eval_matchAll)
  then show ?thesis
    unfolding extractFromContent_def
    by (simp add: exampleOpenOnly_def exampleBody_def eval_trim)
qed

lemma exampleCloseOnly_extract:
  "extractFromContent exampleCloseOnly pkg =
     Some \<lparr>packageName = pkg, version = Some (ascii ''1.2.3''),
           content = ascii ''## 1.2.3]\<newline>- Added the frequentlyBoughtTogether widget to the bundle''\<rparr>"
proof -
  have "matchAll versionHeaderRegex exampleCloseOnly =
          [\<lparr>index = 0, matchEnd = 9, captures = [ascii ''1.2.3'']\<rparr>]"
    by (simp add: exampleCloseOnly_def exampleBody_def eval_matchAll)
  then show ?thesis
    unfolding extractFromContent_def
    by (simp add: exampleCloseOnly_def exampleBody_def eval_trim)
qed

text \<open>
  C4. The headings \<^verbatim>\<open>## [1.2.3]\<close> and \<^verbatim>\<open>## 1.2.3\<close> are both recognised,
  whatever follows their line, and both give the version \<^verbatim>\<open>1.2.3\<close> without
  brackets: it is the capture of the first match, it is the version of every result that
  is not \<open>null\<close>, and with a body of sufficient length the result is not \<open>null\<close>.
\<close>

theorem C4_bracket_forms:
  "(\<exists>ms. matchAll versionHeaderRegex (ascii ''## [1.2.3]'' @ 0x0A # rest) =
           \<lparr>index = 0, matchEnd = 10, captures = [ascii ''1.2.3'']\<rparr> # ms) \<and>
   (\<exists>ms. matchAll versionHeaderRegex (ascii ''## 1.2.3'' @ 0x0A # rest) =
           \<lparr>index = 0, matchEnd = 8, captures = [ascii ''1.2.3'']\<rparr> # ms) \<and>
   (extractFromContent (ascii ''## [1.2.3]'' @ 0x0A # rest) pkg = None \<or>
    map_option version (extractFromContent (ascii ''## [1.2.3]'' @ 0x0A # rest) pkg) =
      Some (Some (ascii ''1.2.3''))) \<and>
   (extractFromContent (ascii ''## 1.2.3'' @ 0x0A # rest) pkg = None \<or>
    map_option version (extractFromContent (ascii ''## 1.2.3'' @ 0x0A # rest) pkg) =
      Some (Some (ascii ''1.2.3''))) \<and>
   map_option version (extractFromContent exampleBracketed pkg) = Some (Some (ascii ''1.2.3'')) \<and>
   map_option version (extractFromContent exampleUnbracketed pkg) = Some (Some (ascii ''1.2.3''))"
proof -
  from matchAll_head [OF bracketed_heading] obtain ms where
    1: "matchAll versionHeaderRegex (ascii ''## [1.2.3]'' @ 0x0A # rest) =
           \<lparr>index = 0, matchEnd = 10, captures = [ascii ''1.2.3'']\<rparr> # ms" by blast
  from matchAll_head [OF unbracketed_heading] obtain ms' where
    2: "matchAll versionHeaderRegex (ascii ''## 1.2.3'' @ 0x0A # rest) =
           \<lparr>index = 0, matchEnd = 8, captures = [ascii ''1.2.3'']\<rparr> # ms'" by blast
  note 3 = extract_version_of_first [OF 1, of pkg]
  note 4 = extract_version_of_first [OF 2, of pkg]
  have 5: "map_option version (extractFromContent exampleBracketed pkg) = Some (Some (ascii ''1.2.3''))"
    by (simp add: exampleBracketed_extract)
  have 6: "map_option version (extractFromContent exampleUnbracketed pkg) = Some (Some (ascii ''1.2.3''))"
    by (simp add: exampleUnbracketed_extract)
  from 1 2 3 4 5 6 show ?thesis by blast
qed

text \<open>
  C9. The two brackets are optional independently of each other: the headings
  \<^verbatim>\<open>## [1.2.3\<close> and \<^verbatim>\<open>## 1.2.3]\<close> are recognised as well, and give
  the version \<^verbatim>\<open>1.2.3\<close>.
\<close>

theorem C9_mismatched_brackets:
  "(\<exists>ms. matchAll versionHeaderRegex (ascii ''## [1.2.3'' @ 0x0A # rest) =
           \<lparr>index = 0, matchEnd = 9, captures = [ascii ''1.2.3'']\<rparr> # ms) \<and>
   (\<exists>ms. matchAll versionHeaderRegex (ascii ''## 1.2.3]'' @ 0x0A # rest) =
           \<lparr>index = 0, matchEnd = 9, captures = [ascii ''1.2.3'']\<rparr> # ms) \<and>
   (extractFromContent (ascii ''## [1.2.3'' @ 0x0A # rest) pkg = None \<or>
    map_option version (extractFromContent (ascii ''## [1.2.3'' @ 0x0A # rest) pkg) =
      Some (Some (ascii ''1.2.3''))) \<and>
   (extractFromContent (ascii ''## 1.2.3]'' @ 0x0A # rest) pkg = None \<or>
    map_option version (extractFromContent (ascii ''## 1.2.3]'' @ 0x0A # rest) pkg) =
      Some (Some (ascii ''1.2.3''))) \<and>
   map_option version (extractFromContent exampleOpenOnly pkg) = Some (Some (ascii ''1.2.3'')) \<and>
   map_option version (extractFromContent exampleCloseOnly pkg) = Some (Some (ascii ''1.2.3''))"
proof -
  from matchAll_head [OF open_only_heading] obtain ms where
    1: "matchAll versionHeaderRegex (ascii ''## [1.2.3'' @ 0x0A # rest) =
           \<lparr>index = 0, matchEnd = 9, captures = [ascii ''1.2.3'']\<rparr> # ms" by blast
  from matchAll_head [OF close_only_heading] obtain ms' where
    2: "matchAll versionHeaderRegex (ascii ''## 1.2.3]'' @ 0x0A # rest) =
           \<lparr>index = 0, matchEnd = 9, captures = [ascii ''1.2.3'']\<rparr> # ms'" by blast
  note 3 = extract_version_of_first [OF 1, of pkg]
  note 4 = extract_version_of_first [OF 2, of pkg]
  have 5: "map_option version (extractFromContent exampleOpenOnly pkg) = Some (Some (ascii ''1.2.3''))"
    by (simp add: exampleOpenOnly_extract)
  have 6: "map_option version (extractFromContent exampleCloseOnly pkg) = Some (Some (ascii ''1.2.3''))"
    by (simp add: exampleCloseOnly_extract)
  from 1 2 3 4 5 6 show ?thesis by blast
qed

text \<open>
  C6. On the end-to-end example the result has version \<^verbatim>\<open>4.87.0\<close>, and its body
  is the heading line \<^verbatim>\<open>## [4.87.0]\<close> followed by the two bullet lines under it,
  trimmed, without the heading of \<^verbatim>\<open>4.86.0\<close> and what follows it.
\<close>

theorem C6_end_to_end:
  "extractFromContent exampleTwoReleases pkg =
     Some \<lparr>packageName = pkg, version = Some (ascii ''4.87.0''),
           content = ascii ''## [4.87.0]\<newline>- Added widget X\<newline>- Fixed bug Y in component Z''\<rparr>"
  unfolding extractFromContent_def exampleTwoReleases_matchAll
  by (simp add: exampleTwoReleases_def eval_trim)

text \<open>
  The body is not the two bullet lines alone: the slice starts at the heading.
\<close>

theorem C6_bullets_only_counterexample:
  "map_option content (extractFromContent exampleTwoReleases examplePackage) \<noteq>
     Some (ascii ''- Added widget X\<newline>- Fixed bug Y in component Z'')"
  unfolding extractFromContent_def exampleTwoReleases_matchAll
  by (simp add: exampleTwoReleases_def eval_trim)

lemma matchAll_member:
  assumes "m \<in> set (matchAll versionHeaderRegex s)"
  shows "specMatchAt s (index m) = Some m"
proof -
  from assms obtain i where "specMatchAt s i = Some m"
    by (auto simp: matchAll_versionHeaderRegex List.map_filter_def simp del: upt_Suc)
  then show ?thesis by (auto simp: specMatchAt_def)
qed

text \<open>
  C10. Every heading that the matcher recognises begins at the start of a line, with
  \<^verbatim>\<open>## \<close> as its first three code units. A heading of a deeper level, an indented
  heading and a heading in the middle of a line are not recognised.
\<close>

theorem C10_line_start_only:
  "(\<forall>m \<in> set (matchAll versionHeaderRegex text).
      lineStart text (index m) \<and> slice text (index m) (index m + 3) = ascii ''## '') \<and>
   matchAll versionHeaderRegex exampleDeeperHeading = [] \<and>
   matchAll versionHeaderRegex exampleIndentedHeading = [] \<and>
   matchAll versionHeaderRegex exampleMidLineHeading = [] \<and>
   extractFromContent exampleDeeperHeading pkg = None \<and>
   extractFromContent exampleIndentedHeading pkg = None \<and>
   extractFromContent exampleMidLineHeading pkg = None"
proof -
  have g: "\<forall>m \<in> set (matchAll versionHeaderRegex text).
      lineStart text (index m) \<and> slice text (index m) (index m + 3) = ascii ''## ''"
  proof
    fix m assume "m \<in> set (matchAll versionHeaderRegex text)"
    from matchAll_member [OF this] have h: "specHeadingAt text (index m) \<noteq> None"
      by (auto simp: specMatchAt_def)
    then have c: "lineStart text (index m)" "charAt text (index m) 0x23"
        "charAt text (index m + 1) 0x23" "charAt text (index m + 2) 0x20"
      by (auto simp: specHeadingAt_def Let_def split: if_splits)
    have "slice text (index m) (index m + 3) = [0x23, 0x23, 0x20]"
      using slice_hd [OF c(2), of "index m + 3"] slice_hd [OF c(3), of "index m + 3"]
        slice_hd [OF c(4), of "index m + 3"]
      by (simp add: slice_def)
    with c(1) show "lineStart text (index m) \<and> slice text (index m) (index m + 3) = ascii ''## ''"
      by (simp add: ascii_def)
  qed
  have 1: "matchAll versionHeaderRegex exampleDeeperHeading = []"
    by (simp add: exampleDeeperHeading_def exampleBody_def eval_matchAll)
  have 2: "matchAll versionHeaderRegex exampleIndentedHeading = []"
    by (simp add: exampleIndentedHeading_def exampleBody_def eval_matchAll)
  have 3: "matchAll versionHeaderRegex exampleMidLineHeading = []"
    by (simp add: exampleMidLineHeading_def exampleBody_def eval_matchAll)
  from g 1 2 3 show ?thesis by (simp add: extractFromContent_def)
qed

theorem C10_line_start_only_witness:
  "\<lparr>index = 58, matchEnd = 69, captures = [ascii ''4.86.0'']\<rparr>
     \<in> set (matchAll versionHeaderRegex exampleTwoReleases) \<and>
   lineStart exampleTwoReleases 58 \<and> slice exampleTwoReleases 58 (58 + 3) = ascii ''## ''"
  using C10_line_start_only [of exampleTwoReleases]
  by (simp add: exampleTwoReleases_matchAll)

section \<open>The shape of the version\<close>

lemma slice_append:
  assumes "x \<le> y" "y \<le> z"
  shows "slice s x z = slice s x y @ slice s y z"
proof -
  from assms have "z - x = (y - x) + (z - y)" by simp
  then have "take (z - x) (drop x s) = take (y - x) (drop x s) @ take (z - y) (drop (y - x) (drop x s))"
    by (simp only: take_add)
  with assms show ?thesis by (simp add: slice_def)
qed

lemma slice_run: "slice s x (x + runAt cl s x) = takeWhile (inClass cl) (drop x s)"
  by (simp add: slice_def runAt_def takeWhile_eq_take [symmetric])

lemma slice_char: "charAt s x c \<Longrightarrow> slice s x (x + 1) = [c]"
  using slice_hd [of s x c "x + 1"] by (simp add: slice_def)

lemma list_all_takeWhile: "list_all P (takeWhile P xs)"
  by (induction xs) simp_all

lemma takeWhile_nonempty: "0 < runAt cl s x \<Longrightarrow> takeWhile (inClass cl) (drop x s) \<noteq> []"
  by (auto simp: runAt_def)

lemma specHeadingAt_version:
  assumes h: "specHeadingAt s p = Some (v, f)"
  shows "specIsVersion v"
proof -
  define a where "a = (if charAt s (p + 3) 0x5B then p + 4 else p + 3)"
  define b where "b = a + runAt digit s a + 1"
  define c where "c = b + runAt digit s b + 1"
  define d where "d = c + runAt digit s c"
  define e where "e = suffixEnd s d"
  have eq: "specHeadingAt s p =
      (if lineStart s p \<and> charAt s p 0x23 \<and> charAt s (p + 1) 0x23 \<and> charAt s (p + 2) 0x20 \<and>
            0 < runAt digit s a \<and> charAt s (b - 1) 0x2E \<and>
            0 < runAt digit s b \<and> charAt s (c - 1) 0x2E \<and>
            0 < runAt digit s c
       then Some (slice s a e, if charAt s e 0x5D then e + 1 else e) else None)"
    unfolding specHeadingAt_def Let_def a_def b_def c_def d_def e_def by (rule refl)
  from h have facts: "0 < runAt digit s a" "charAt s (b - 1) 0x2E" "0 < runAt digit s b"
      "charAt s (c - 1) 0x2E" "0 < runAt digit s c" "v = slice s a e"
    unfolding eq by (simp_all split: if_splits)
  let ?d1 = "takeWhile (inClass digit) (drop a s)"
  let ?d2 = "takeWhile (inClass digit) (drop b s)"
  let ?d3 = "takeWhile (inClass digit) (drop c s)"
  let ?tag = "takeWhile (inClass alnumDot) (drop (d + 1) s)"
  have b1: "b - 1 = a + runAt digit s a" and c1: "c - 1 = b + runAt digit s b"
    by (simp_all add: b_def c_def)
  have s1: "slice s a (b - 1) = ?d1" unfolding b1 by (rule slice_run)
  have s2: "slice s (b - 1) b = [0x2E]"
    using slice_char [OF facts(2)] by (simp add: b_def)
  have s3: "slice s b (c - 1) = ?d2" unfolding c1 by (rule slice_run)
  have s4: "slice s (c - 1) c = [0x2E]"
    using slice_char [OF facts(4)] by (simp add: c_def)
  have s5: "slice s c d = ?d3" unfolding d_def by (rule slice_run)
  have de: "d \<le> e" by (simp add: e_def suffixEnd_def)
  have "slice s a e = slice s a (b - 1) @ slice s (b - 1) b @ slice s b (c - 1) @
          slice s (c - 1) c @ slice s c d @ slice s d e"
    using de
    by (subst slice_append [of a "b - 1" e], simp add: b_def, simp add: b_def c_def d_def,
        subst slice_append [of "b - 1" b e], simp, simp add: c_def d_def,
        subst slice_append [of b "c - 1" e], simp add: c_def, simp add: c_def d_def,
        subst slice_append [of "c - 1" c e], simp, simp add: d_def,
        subst slice_append [of c d e], simp add: d_def, simp, simp)
  then have v: "v = ?d1 @ [0x2E] @ ?d2 @ [0x2E] @ ?d3 @ slice s d e"
    by (simp only: facts(6) s1 s2 s3 s4 s5)
  have n: "?d1 \<noteq> []" "?d2 \<noteq> []" "?d3 \<noteq> []"
    using facts(1,3,5) by (simp_all add: takeWhile_nonempty)
  show ?thesis
  proof (cases "e = d")
    case True
    then have "slice s d e = []" by (simp add: slice_def)
    with v n show ?thesis
      unfolding specIsVersion_def
      by (intro exI [of _ ?d1] exI [of _ ?d2] exI [of _ ?d3] exI [of _ "[]"])
         (simp add: list_all_takeWhile)
  next
    case False
    then have dash: "charAt s d 0x2D" and k: "0 < runAt alnumDot s (d + 1)"
      and ee: "e = d + 1 + runAt alnumDot s (d + 1)"
      by (auto simp: e_def suffixEnd_def split: if_splits)
    have "slice s d e = slice s d (d + 1) @ slice s (d + 1) e"
      by (rule slice_append) (simp_all add: ee)
    also have "slice s d (d + 1) = [0x2D]" by (rule slice_char [OF dash])
    also have "slice s (d + 1) e = ?tag" unfolding ee by (rule slice_run)
    finally have t: "slice s d e = [0x2D] @ ?tag" .
    from k have "?tag \<noteq> []" by (rule takeWhile_nonempty)
    with v n t show ?thesis
      unfolding specIsVersion_def
      by (intro exI [of _ ?d1] exI [of _ ?d2] exI [of _ ?d3] exI [of _ ?tag])
         (simp add: list_all_takeWhile)
  qed
qed

lemma extract_version_shape:
  assumes "extractFromContent text pkg = Some r"
  shows "\<exists>v. version r = Some v \<and> specIsVersion v"
proof (cases "specHeadingOffsets text")
  case Nil
  with assms show ?thesis by (simp add: extractFromContent_spec)
next
  case (Cons i1 later)
  then have "i1 \<in> set (specHeadingOffsets text)" by simp
  then obtain v f where h: "specHeadingAt text i1 = Some (v, f)"
    by (auto simp: specHeadingOffsets_member)
  from assms Cons h have "version r = Some v"
    by (auto simp: extractFromContent_spec split: if_splits)
  with specHeadingAt_version [OF h] show ?thesis by simp
qed

lemma charAt_drop: "charAt s k c = (case drop k s of [] \<Rightarrow> False | x # _ \<Rightarrow> x = c)"
proof (cases "k < length s")
  case True
  with Cons_nth_drop_Suc [of k s] have "drop k s = s ! k # drop (Suc k) s" by simp
  with True show ?thesis by (simp add: charAt_def)
next
  case False
  then show ?thesis by (simp add: charAt_def)
qed

lemma drop_step: "drop a t = xs @ r \<Longrightarrow> drop (a + length xs) t = r"
proof -
  assume h: "drop a t = xs @ r"
  have "drop (a + length xs) t = drop (length xs) (drop a t)" by (simp add: add.commute)
  with h show ?thesis by simp
qed

lemma runAt_step:
  assumes "drop a t = xs @ r" "list_all (inClass cl) xs" "r = [] \<or> \<not> inClass cl (hd r)"
  shows "runAt cl t a = length xs"
proof -
  from assms(3) have "takeWhile (inClass cl) r = []" by (cases r) auto
  with assms(1,2) show ?thesis by (simp add: runAt_def list_all_iff)
qed

lemma slice_step: "drop a t = xs @ r \<Longrightarrow> slice t a (a + length xs) = xs"
  by (simp add: slice_def)

lemma specHeadingAt_intro:
  assumes "lineStart s i" "charAt s i 0x23" "charAt s (i + 1) 0x23" "charAt s (i + 2) 0x20"
    and "(if charAt s (i + 3) 0x5B then i + 4 else i + 3) = a"
    and "0 < runAt digit s a" "b = a + runAt digit s a + 1" "charAt s (b - 1) 0x2E"
    and "0 < runAt digit s b" "c = b + runAt digit s b + 1" "charAt s (c - 1) 0x2E"
    and "0 < runAt digit s c" "e = suffixEnd s (c + runAt digit s c)"
  shows "specHeadingAt s i = Some (slice s a e, if charAt s e 0x5D then e + 1 else e)"
proof -
  have "specHeadingAt s i =
      (if lineStart s i \<and> charAt s i 0x23 \<and> charAt s (i + 1) 0x23 \<and> charAt s (i + 2) 0x20 \<and>
            0 < runAt digit s a \<and> charAt s (b - 1) 0x2E \<and>
            0 < runAt digit s b \<and> charAt s (c - 1) 0x2E \<and>
            0 < runAt digit s c
       then Some (slice s a e, if charAt s e 0x5D then e + 1 else e) else None)"
    unfolding specHeadingAt_def Let_def assms(5) assms(7) assms(10) assms(13) by (rule refl)
  with assms show ?thesis by simp
qed

lemma heading_with_suffix:
  assumes ls: "lineStart s i"
    and dr: "drop i s = ascii ''## '' @ ob @ d1 @ [0x2E] @ d2 @ [0x2E] @ d3 @ [0x2D] @ tag @ rest"
    and ob: "ob = [] \<or> ob = [0x5B]"
    and d1: "d1 \<noteq> []" "list_all (inClass digit) d1"
    and d2: "d2 \<noteq> []" "list_all (inClass digit) d2"
    and d3: "d3 \<noteq> []" "list_all (inClass digit) d3"
    and tag: "tag \<noteq> []" "list_all (inClass alnumDot) tag"
    and rest: "rest = [] \<or> \<not> inClass alnumDot (hd rest)"
  shows "\<exists>f. specHeadingAt s i = Some (d1 @ [0x2E] @ d2 @ [0x2E] @ d3 @ [0x2D] @ tag, f)"
proof -
  define R3 where "R3 = [0x2D] @ tag @ rest"
  define R2 where "R2 = [0x2E] @ d3 @ R3"
  define R1 where "R1 = [0x2E] @ d2 @ R2"
  define a where "a = i + 3 + length ob"
  define b where "b = a + length d1 + 1"
  define c where "c = b + length d2 + 1"
  define d where "d = c + length d3"
  define e where "e = d + 1 + length tag"
  have nd: "\<not> inClass digit 0x2E" "\<not> inClass digit 0x2D" "\<not> inClass digit 0x5B"
    by (simp_all add: digit_def)
  have dr0: "drop i s = [0x23] @ ([0x23, 0x20] @ ob @ d1 @ R1)"
    by (simp add: dr ascii_def R1_def R2_def R3_def)
  from drop_step [OF dr0] have dr1: "drop (i + 1) s = [0x23] @ ([0x20] @ ob @ d1 @ R1)" by simp
  from drop_step [OF dr1] have dr2: "drop (i + 2) s = [0x20] @ (ob @ d1 @ R1)"
    by (simp add: add.assoc)
  from drop_step [OF dr2] have dr3: "drop (i + 3) s = ob @ (d1 @ R1)"
    by (simp add: add.assoc numeral_3_eq_3)
  from drop_step [OF dr3] have da: "drop a s = d1 @ R1" by (simp add: a_def)
  from drop_step [OF da] have db1: "drop (b - 1) s = [0x2E] @ (d2 @ R2)"
    by (simp add: b_def R1_def)
  from drop_step [OF db1] have db: "drop b s = d2 @ R2" by (simp add: b_def)
  from drop_step [OF db] have dc1: "drop (c - 1) s = [0x2E] @ (d3 @ R3)"
    by (simp add: c_def R2_def)
  from drop_step [OF dc1] have dc: "drop c s = d3 @ R3" by (simp add: c_def)
  from drop_step [OF dc] have dd: "drop d s = [0x2D] @ (tag @ rest)"
    by (simp add: d_def R3_def)
  from drop_step [OF dd] have dd1: "drop (d + 1) s = tag @ rest" by simp
  have c0: "charAt s i 0x23" "charAt s (i + 1) 0x23" "charAt s (i + 2) 0x20"
    unfolding charAt_drop dr0 dr1 dr2 by simp_all
  have a_eq: "(if charAt s (i + 3) 0x5B then i + 4 else i + 3) = a"
  proof (cases "ob = []")
    case True
    from d1 obtain x xs where x: "d1 = x # xs" "inClass digit x" by (cases d1) auto
    with nd(3) have "x \<noteq> 0x5B" by auto
    then show ?thesis by (simp add: charAt_drop dr3 True x a_def)
  next
    case False
    with ob have "ob = [0x5B]" by simp
    then show ?thesis by (simp add: charAt_drop dr3 a_def)
  qed
  have n1: "runAt digit s a = length d1"
    by (rule runAt_step [OF da d1(2)]) (simp add: R1_def nd)
  have n2: "runAt digit s b = length d2"
    by (rule runAt_step [OF db d2(2)]) (simp add: R2_def nd)
  have n3: "runAt digit s c = length d3"
    by (rule runAt_step [OF dc d3(2)]) (simp add: R3_def nd)
  have k: "runAt alnumDot s (d + 1) = length tag"
    by (rule runAt_step [OF dd1 tag(2) rest])
  have dash: "charAt s d 0x2D" unfolding charAt_drop dd by simp
  have se: "suffixEnd s d = e"
    using dash k tag(1) by (simp add: suffixEnd_def e_def)
  have dots: "charAt s (b - 1) 0x2E" "charAt s (c - 1) 0x2E"
    unfolding charAt_drop db1 dc1 by simp_all
  have "drop a s = (d1 @ [0x2E] @ d2 @ [0x2E] @ d3 @ [0x2D] @ tag) @ rest"
    by (simp add: da R1_def R2_def R3_def)
  from slice_step [OF this] have sl: "slice s a e = d1 @ [0x2E] @ d2 @ [0x2E] @ d3 @ [0x2D] @ tag"
    by (simp add: e_def d_def c_def b_def add.assoc)
  have p6: "0 < runAt digit s a" using n1 d1(1) by simp
  have p7: "b = a + runAt digit s a + 1" by (simp add: b_def n1)
  have p9: "0 < runAt digit s b" using n2 d2(1) by simp
  have p10: "c = b + runAt digit s b + 1" by (simp add: c_def n2)
  have p12: "0 < runAt digit s c" using n3 d3(1) by simp
  have p13: "e = suffixEnd s (c + runAt digit s c)" using se by (simp add: d_def n3)
  have "specHeadingAt s i = Some (slice s a e, if charAt s e 0x5D then e + 1 else e)"
    by (rule specHeadingAt_intro [OF ls c0 a_eq p6 p7 dots(1) p9 p10 dots(2) p12 p13])
  then show ?thesis by (simp add: sl)
qed

section \<open>A heading line, declaratively\<close>

lemma drop_split: "x \<le> y \<Longrightarrow> drop x s = slice s x y @ drop y s"
proof -
  assume "x \<le> y"
  then have 2: "drop (y - x) (drop x s) = drop y s" by simp
  show ?thesis
    unfolding slice_def using append_take_drop_id [of "y - x" "drop x s"] unfolding 2
    by (rule sym)
qed

lemma heading_line_recognised:
  assumes ls: "lineStart s i"
    and dr: "drop i s = ascii ''## '' @ ob @ d1 @ [0x2E] @ d2 @ [0x2E] @ d3 @ rest"
    and ob: "ob = [] \<or> ob = [0x5B]"
    and d1: "d1 \<noteq> []" "list_all (inClass digit) d1"
    and d2: "d2 \<noteq> []" "list_all (inClass digit) d2"
    and d3: "d3 \<noteq> []" "list_all (inClass digit) d3"
  shows "specHeadingAt s i \<noteq> None"
proof -
  define R2 where "R2 = [0x2E] @ d3 @ rest"
  define R1 where "R1 = [0x2E] @ d2 @ R2"
  define a where "a = i + 3 + length ob"
  define b where "b = a + length d1 + 1"
  define c where "c = b + length d2 + 1"
  have nd: "\<not> inClass digit 0x2E" "\<not> inClass digit 0x5B"
    by (simp_all add: digit_def)
  have dr0: "drop i s = [0x23] @ ([0x23, 0x20] @ ob @ d1 @ R1)"
    by (simp add: dr ascii_def R1_def R2_def)
  from drop_step [OF dr0] have dr1: "drop (i + 1) s = [0x23] @ ([0x20] @ ob @ d1 @ R1)" by simp
  from drop_step [OF dr1] have dr2: "drop (i + 2) s = [0x20] @ (ob @ d1 @ R1)"
    by (simp add: add.assoc)
  from drop_step [OF dr2] have dr3: "drop (i + 3) s = ob @ (d1 @ R1)"
    by (simp add: add.assoc numeral_3_eq_3)
  from drop_step [OF dr3] have da: "drop a s = d1 @ R1" by (simp add: a_def)
  from drop_step [OF da] have db1: "drop (b - 1) s = [0x2E] @ (d2 @ R2)"
    by (simp add: b_def R1_def)
  from drop_step [OF db1] have db: "drop b s = d2 @ R2" by (simp add: b_def)
  from drop_step [OF db] have dc1: "drop (c - 1) s = [0x2E] @ (d3 @ rest)"
    by (simp add: c_def R2_def)
  from drop_step [OF dc1] have dc: "drop c s = d3 @ rest" by (simp add: c_def)
  have c0: "charAt s i 0x23" "charAt s (i + 1) 0x23" "charAt s (i + 2) 0x20"
    unfolding charAt_drop dr0 dr1 dr2 by simp_all
  have a_eq: "(if charAt s (i + 3) 0x5B then i + 4 else i + 3) = a"
  proof (cases "ob = []")
    case True
    from d1 obtain x xs where x: "d1 = x # xs" "inClass digit x" by (cases d1) auto
    with nd(2) have "x \<noteq> 0x5B" by auto
    then show ?thesis by (simp add: charAt_drop dr3 True x a_def)
  next
    case False
    with ob have "ob = [0x5B]" by simp
    then show ?thesis by (simp add: charAt_drop dr3 a_def)
  qed
  have n1: "runAt digit s a = length d1"
    by (rule runAt_step [OF da d1(2)]) (simp add: R1_def nd)
  have n2: "runAt digit s b = length d2"
    by (rule runAt_step [OF db d2(2)]) (simp add: R2_def nd)
  have "takeWhile (inClass digit) (d3 @ rest) = d3 @ takeWhile (inClass digit) rest"
    using d3(2) by (simp add: list_all_iff)
  then have p12: "0 < runAt digit s c" using d3(1) by (simp add: runAt_def dc)
  have dots: "charAt s (b - 1) 0x2E" "charAt s (c - 1) 0x2E"
    unfolding charAt_drop db1 dc1 by simp_all
  have p6: "0 < runAt digit s a" using n1 d1(1) by simp
  have p7: "b = a + runAt digit s a + 1" by (simp add: b_def n1)
  have p9: "0 < runAt digit s b" using n2 d2(1) by simp
  have p10: "c = b + runAt digit s b + 1" by (simp add: c_def n2)
  from specHeadingAt_intro [OF ls c0 a_eq p6 p7 dots(1) p9 p10 dots(2) p12 refl]
  show ?thesis by simp
qed

lemma heading_line_decomposed:
  assumes h: "specHeadingAt s p = Some (v, f)"
  shows "specIsHeadingLine s p"
proof -
  define a where "a = (if charAt s (p + 3) 0x5B then p + 4 else p + 3)"
  define b where "b = a + runAt digit s a + 1"
  define c where "c = b + runAt digit s b + 1"
  define d where "d = c + runAt digit s c"
  define e where "e = suffixEnd s d"
  have eq: "specHeadingAt s p =
      (if lineStart s p \<and> charAt s p 0x23 \<and> charAt s (p + 1) 0x23 \<and> charAt s (p + 2) 0x20 \<and>
            0 < runAt digit s a \<and> charAt s (b - 1) 0x2E \<and>
            0 < runAt digit s b \<and> charAt s (c - 1) 0x2E \<and>
            0 < runAt digit s c
       then Some (slice s a e, if charAt s e 0x5D then e + 1 else e) else None)"
    unfolding specHeadingAt_def Let_def a_def b_def c_def d_def e_def by (rule refl)
  from h have facts: "lineStart s p" "charAt s p 0x23" "charAt s (p + 1) 0x23"
      "charAt s (p + 2) 0x20" "0 < runAt digit s a" "charAt s (b - 1) 0x2E"
      "0 < runAt digit s b" "charAt s (c - 1) 0x2E" "0 < runAt digit s c"
    unfolding eq by (simp_all split: if_splits)
  let ?ob = "slice s (p + 3) a"
  let ?d1 = "takeWhile (inClass digit) (drop a s)"
  let ?d2 = "takeWhile (inClass digit) (drop b s)"
  let ?d3 = "takeWhile (inClass digit) (drop c s)"
  have b1: "b - 1 = a + runAt digit s a" and c1: "c - 1 = b + runAt digit s b"
    by (simp_all add: b_def c_def)
  have s0: "slice s p (p + 3) = ascii ''## ''"
    using slice_hd [OF facts(2), of "p + 3"] slice_hd [OF facts(3), of "p + 3"]
      slice_hd [OF facts(4), of "p + 3"]
    by (simp add: slice_def ascii_def)
  have ob: "?ob = [] \<or> ?ob = [0x5B]"
  proof (cases "charAt s (p + 3) 0x5B")
    case True
    then have "a = (p + 3) + 1" by (simp add: a_def)
    then have "?ob = [0x5B]" using slice_char [OF True] by (simp only:)
    then show ?thesis by (rule disjI2)
  next
    case False
    then show ?thesis by (simp add: a_def slice_def)
  qed
  have s1: "slice s a (b - 1) = ?d1" unfolding b1 by (rule slice_run)
  have s2: "slice s (b - 1) b = [0x2E]"
    using slice_char [OF facts(6)] by (simp add: b_def)
  have s3: "slice s b (c - 1) = ?d2" unfolding c1 by (rule slice_run)
  have s4: "slice s (c - 1) c = [0x2E]"
    using slice_char [OF facts(8)] by (simp add: c_def)
  have s5: "slice s c d = ?d3" unfolding d_def by (rule slice_run)
  have "drop p s = slice s p (p + 3) @ drop (p + 3) s" by (rule drop_split) simp
  also have "drop (p + 3) s = slice s (p + 3) a @ drop a s"
    by (rule drop_split) (simp add: a_def)
  also have "drop a s = slice s a (b - 1) @ drop (b - 1) s"
    by (rule drop_split) (simp add: b_def)
  also have "drop (b - 1) s = slice s (b - 1) b @ drop b s" by (rule drop_split) simp
  also have "drop b s = slice s b (c - 1) @ drop (c - 1) s"
    by (rule drop_split) (simp add: c_def)
  also have "drop (c - 1) s = slice s (c - 1) c @ drop c s" by (rule drop_split) simp
  also have "drop c s = slice s c d @ drop d s" by (rule drop_split) (simp add: d_def)
  finally have "drop p s = ascii ''## '' @ ?ob @ ?d1 @ [0x2E] @ ?d2 @ [0x2E] @ ?d3 @ drop d s"
    by (simp only: s0 s1 s2 s3 s4 s5)
  moreover have "?d1 \<noteq> []" "?d2 \<noteq> []" "?d3 \<noteq> []"
    using facts(5,7,9) by (simp_all add: takeWhile_nonempty)
  ultimately show ?thesis
    unfolding specIsHeadingLine_def using facts(1) ob
    by (intro conjI exI [of _ ?ob] exI [of _ ?d1] exI [of _ ?d2] exI [of _ ?d3]
          exI [of _ "drop d s"]) (simp_all add: list_all_takeWhile)
qed

lemma specHeadingAt_iff: "specHeadingAt s i \<noteq> None \<longleftrightarrow> specIsHeadingLine s i"
proof
  assume "specHeadingAt s i \<noteq> None"
  then obtain v f where "specHeadingAt s i = Some (v, f)" by auto
  then show "specIsHeadingLine s i" by (rule heading_line_decomposed)
next
  assume "specIsHeadingLine s i"
  then obtain ob d1 d2 d3 rest where "lineStart s i"
      "drop i s = ascii ''## '' @ ob @ d1 @ [0x2E] @ d2 @ [0x2E] @ d3 @ rest"
      "ob = [] \<or> ob = [0x5B]"
      "d1 \<noteq> []" "list_all (inClass digit) d1"
      "d2 \<noteq> []" "list_all (inClass digit) d2"
      "d3 \<noteq> []" "list_all (inClass digit) d3"
    unfolding specIsHeadingLine_def by blast
  then show "specHeadingAt s i \<noteq> None" by (rule heading_line_recognised)
qed

lemma specIsHeadingLine_iff:
  "specIsHeadingLine s i \<longleftrightarrow> (\<exists>v f. specHeadingAt s i = Some (v, f))"
  using specHeadingAt_iff [of s i] by auto

lemma specHeadingOffsets_set: "set (specHeadingOffsets s) = {i. specIsHeadingLine s i}"
  by (auto simp: specHeadingOffsets_member specIsHeadingLine_iff)

text \<open>
  C2. For every text without a line that matches the heading pattern, read from a
  readable file, \<open>extractLatestRelease\<close> returns \<open>null\<close> and does not throw.
\<close>

theorem C2_no_heading:
  assumes "\<forall>i. \<not> specIsHeadingLine text i" and "fs path = File text"
  shows "extractFromContent text pkg = None \<and> extractLatestRelease fs path pkg = Inr None"
proof -
  from assms(1) have "specHeadingOffsets text = []"
    by (simp add: specHeadingOffsets_def specIsHeadingLine_iff del: upt_Suc)
  with assms(2) show ?thesis
    by (simp add: extractFromContent_spec extractLatestRelease_readable)
qed

theorem C2_no_heading_witness:
  "(\<forall>i. \<not> specIsHeadingLine exampleNoHeading i) \<and>
   (\<lambda>p. File exampleNoHeading) (ascii ''CHANGELOG.md'') = File exampleNoHeading \<and>
   extractFromContent exampleNoHeading examplePackage = None \<and>
   extractLatestRelease (\<lambda>p. File exampleNoHeading) (ascii ''CHANGELOG.md'') examplePackage =
     Inr None"
proof -
  have h: "\<forall>i. \<not> specIsHeadingLine exampleNoHeading i"
    using specHeadingOffsets_member [of _ exampleNoHeading]
    by (simp add: exampleNoHeading_offsets specIsHeadingLine_iff)
  from C2_no_heading [of exampleNoHeading "\<lambda>p. File exampleNoHeading" "ascii ''CHANGELOG.md''"
      examplePackage] h
  show ?thesis by simp
qed

section \<open>The pre-release tag\<close>

lemma examplePrerelease_matchAll:
  "matchAll versionHeaderRegex examplePrerelease =
     [\<lparr>index = 0, matchEnd = 17, captures = [ascii ''1.2.3-beta.1'']\<rparr>]"
  by (simp add: examplePrerelease_def exampleBody_def eval_matchAll)

lemma examplePrerelease_offsets: "specHeadingOffsets examplePrerelease = [0]"
  unfolding matchAll_offsets [symmetric] examplePrerelease_matchAll by simp

lemma examplePrerelease_extract:
  "extractFromContent examplePrerelease pkg =
     Some \<lparr>packageName = pkg, version = Some (ascii ''1.2.3-beta.1''),
           content = ascii ''## [1.2.3-beta.1]\<newline>- Added the frequentlyBoughtTogether widget to the bundle''\<rparr>"
  unfolding extractFromContent_def examplePrerelease_matchAll
  by (simp add: examplePrerelease_def exampleBody_def eval_trim)

text \<open>
  C5. Every version that is returned has the form \<open>MAJOR.MINOR.PATCH\<close>, optionally
  followed by a hyphen and a tag of letters, digits and dots. When the first heading
  carries such a tag, and the tag is not followed by a further letter, digit or dot, the
  version of the result is the dotted triple, the hyphen and the tag, unchanged.
\<close>

theorem C5_version_shape:
  "(\<forall>r. extractFromContent text pkg = Some r \<longrightarrow> (\<exists>v. version r = Some v \<and> specIsVersion v)) \<and>
   (specHeadingOffsets text = i1 # later \<and>
    drop i1 text = ascii ''## '' @ ob @ d1 @ [0x2E] @ d2 @ [0x2E] @ d3 @ [0x2D] @ tag @ rest \<and>
    (ob = [] \<or> ob = [0x5B]) \<and>
    d1 \<noteq> [] \<and> list_all (inClass digit) d1 \<and>
    d2 \<noteq> [] \<and> list_all (inClass digit) d2 \<and>
    d3 \<noteq> [] \<and> list_all (inClass digit) d3 \<and>
    tag \<noteq> [] \<and> list_all (inClass alnumDot) tag \<and>
    (rest = [] \<or> \<not> inClass alnumDot (hd rest)) \<and>
    extractFromContent text pkg \<noteq> None \<longrightarrow>
      map_option version (extractFromContent text pkg) =
        Some (Some (d1 @ [0x2E] @ d2 @ [0x2E] @ d3 @ [0x2D] @ tag)))"
proof (intro conjI allI impI)
  fix r assume "extractFromContent text pkg = Some r"
  then show "\<exists>v. version r = Some v \<and> specIsVersion v" by (rule extract_version_shape)
next
  assume a: "specHeadingOffsets text = i1 # later \<and>
    drop i1 text = ascii ''## '' @ ob @ d1 @ [0x2E] @ d2 @ [0x2E] @ d3 @ [0x2D] @ tag @ rest \<and>
    (ob = [] \<or> ob = [0x5B]) \<and>
    d1 \<noteq> [] \<and> list_all (inClass digit) d1 \<and>
    d2 \<noteq> [] \<and> list_all (inClass digit) d2 \<and>
    d3 \<noteq> [] \<and> list_all (inClass digit) d3 \<and>
    tag \<noteq> [] \<and> list_all (inClass alnumDot) tag \<and>
    (rest = [] \<or> \<not> inClass alnumDot (hd rest)) \<and>
    extractFromContent text pkg \<noteq> None"
  then have off: "specHeadingOffsets text = i1 # later" by blast
  then have "i1 \<in> set (specHeadingOffsets text)" by simp
  then have ls: "lineStart text i1"
    by (auto simp: specHeadingOffsets_member specHeadingAt_def Let_def split: if_splits)
  from a have "\<exists>f. specHeadingAt text i1 =
      Some (d1 @ [0x2E] @ d2 @ [0x2E] @ d3 @ [0x2D] @ tag, f)"
    by (intro heading_with_suffix [OF ls]) blast+
  then obtain f where h: "specHeadingAt text i1 =
      Some (d1 @ [0x2E] @ d2 @ [0x2E] @ d3 @ [0x2D] @ tag, f)" by blast
  from a have "extractFromContent text pkg \<noteq> None" by blast
  then show "map_option version (extractFromContent text pkg) =
        Some (Some (d1 @ [0x2E] @ d2 @ [0x2E] @ d3 @ [0x2D] @ tag))"
    by (simp add: extractFromContent_spec off h split: if_splits)
qed

theorem C5_version_shape_witness:
  "extractFromContent examplePrerelease examplePackage =
     Some \<lparr>packageName = examplePackage, version = Some (ascii ''1.2.3-beta.1''),
           content = ascii ''## [1.2.3-beta.1]\<newline>- Added the frequentlyBoughtTogether widget to the bundle''\<rparr> \<and>
   specIsVersion (ascii ''1.2.3-beta.1'') \<and>
   specHeadingOffsets examplePrerelease = 0 # [] \<and>
   drop 0 examplePrerelease =
     ascii ''## '' @ [0x5B] @ ascii ''1'' @ [0x2E] @ ascii ''2'' @ [0x2E] @ ascii ''3'' @ [0x2D] @
     ascii ''beta.1'' @ (ascii '']\<newline>'' @ exampleBody) \<and>
   list_all (inClass digit) (ascii ''1'') \<and> list_all (inClass digit) (ascii ''2'') \<and>
   list_all (inClass digit) (ascii ''3'') \<and> list_all (inClass alnumDot) (ascii ''beta.1'') \<and>
   \<not> inClass alnumDot (hd (ascii '']\<newline>'' @ exampleBody)) \<and>
   map_option version (extractFromContent examplePrerelease examplePackage) =
     Some (Some (ascii ''1'' @ [0x2E] @ ascii ''2'' @ [0x2E] @ ascii ''3'' @ [0x2D] @ ascii ''beta.1''))"
proof -
  note c = C5_version_shape [of examplePrerelease examplePackage 0 "[]" "[0x5B]" "ascii ''1''"
      "ascii ''2''" "ascii ''3''" "ascii ''beta.1''" "ascii '']\<newline>'' @ exampleBody"]
  have e: "extractFromContent examplePrerelease examplePackage =
     Some \<lparr>packageName = examplePackage, version = Some (ascii ''1.2.3-beta.1''),
           content = ascii ''## [1.2.3-beta.1]\<newline>- Added the frequentlyBoughtTogether widget to the bundle''\<rparr>"
    by (rule examplePrerelease_extract)
  from c e have v: "specIsVersion (ascii ''1.2.3-beta.1'')" by auto
  have o: "specHeadingOffsets examplePrerelease = 0 # []" by (simp add: examplePrerelease_offsets)
  have d: "drop 0 examplePrerelease =
     ascii ''## '' @ [0x5B] @ ascii ''1'' @ [0x2E] @ ascii ''2'' @ [0x2E] @ ascii ''3'' @ [0x2D] @
     ascii ''beta.1'' @ (ascii '']\<newline>'' @ exampleBody)"
    by (simp add: examplePrerelease_def ascii_def)
  have l: "list_all (inClass digit) (ascii ''1'')" "list_all (inClass digit) (ascii ''2'')"
    "list_all (inClass digit) (ascii ''3'')" "list_all (inClass alnumDot) (ascii ''beta.1'')"
    "\<not> inClass alnumDot (hd (ascii '']\<newline>'' @ exampleBody))"
    by (simp_all add: ascii_def digit_def alnumDot_def)
  have n: "ascii ''1'' \<noteq> []" "ascii ''2'' \<noteq> []" "ascii ''3'' \<noteq> []" "ascii ''beta.1'' \<noteq> []"
    by (simp_all add: ascii_def)
  from e have ne: "extractFromContent examplePrerelease examplePackage \<noteq> None" by simp
  from c o d l n ne have
    "map_option version (extractFromContent examplePrerelease examplePackage) =
     Some (Some (ascii ''1'' @ [0x2E] @ ascii ''2'' @ [0x2E] @ ascii ''3'' @ [0x2D] @ ascii ''beta.1''))"
    by blast
  with e v o d l show ?thesis by blast
qed

section \<open>The outcome of main\<close>

lemma collectReleases_error_iff:
  "(\<exists>out' e. collectReleases fs dir v pkgs out rel = (out', Inl e)) \<longleftrightarrow>
   (\<exists>p \<in> set pkgs. fs (pathJoin [dir, p, ascii ''CHANGELOG.md'']) = Unreadable)"
proof (induction pkgs arbitrary: out rel)
  case Nil
  then show ?case by simp
next
  case (Cons p pkgs)
  show ?case
  proof (cases "fs (pathJoin [dir, p, ascii ''CHANGELOG.md''])")
    case Missing
    then show ?thesis
      using Cons.IH by (simp add: existsSync_def Let_def)
  next
    case Unreadable
    then show ?thesis
      by (simp add: existsSync_def extractLatestRelease_unreadable Let_def)
  next
    case (File t)
    then show ?thesis
      using Cons.IH
      by (cases "extractFromContent t p")
         (simp_all add: existsSync_def extractLatestRelease_readable Let_def)
  qed
qed

lemma collectReleases_none:
  assumes "\<forall>p \<in> set pkgs. fs (pathJoin [dir, p, ascii ''CHANGELOG.md'']) = Missing \<or>
             (\<exists>t. fs (pathJoin [dir, p, ascii ''CHANGELOG.md'']) = File t \<and>
                  extractFromContent t p = None)"
  shows "\<exists>out'. collectReleases fs dir v pkgs out rel = (out', Inr rel)"
  using assms
proof (induction pkgs arbitrary: out)
  case Nil
  then show ?case by simp
next
  case (Cons p pkgs)
  from Cons.prems have rest: "\<forall>p \<in> set pkgs. fs (pathJoin [dir, p, ascii ''CHANGELOG.md'']) = Missing \<or>
             (\<exists>t. fs (pathJoin [dir, p, ascii ''CHANGELOG.md'']) = File t \<and>
                  extractFromContent t p = None)" by simp
  from Cons.prems consider "fs (pathJoin [dir, p, ascii ''CHANGELOG.md'']) = Missing"
    | t where "fs (pathJoin [dir, p, ascii ''CHANGELOG.md'']) = File t" "extractFromContent t p = None"
    by auto
  then show ?case
  proof cases
    case 1
    then show ?thesis
      using Cons.IH [OF rest] by (simp add: existsSync_def Let_def)
  next
    case 2
    then show ?thesis
      using Cons.IH [OF rest]
      by (simp add: existsSync_def extractLatestRelease_readable Let_def)
  qed
qed

lemma generate_prompt_nonempty: "ascii ''generate-prompt'' \<noteq> []"
  by (simp add: ascii_def)

lemma main_generate_prompt:
  "main fs repoRoot (ascii ''generate-prompt'' # args) =
     (let verbose = (ascii ''--verbose'' \<in> set (ascii ''generate-prompt'' # args));
          packagesDir = pathJoin [repoRoot, ascii ''packages''];
          out = (if verbose
                 then [ascii ''Repo root: '' @ repoRoot, ascii ''Packages dir: '' @ packagesDir]
                 else [])
      in case collectReleases fs packagesDir verbose MAIN_DOC_PACKAGES out [] of
              (out', Inl e) \<Rightarrow> (out', ProcessExit 1)
            | (out', Inr releases) \<Rightarrow>
                if length releases = 0
                then (out' @ [ascii ''No packages with documentation needs detected''], ProcessExit 0)
                else (out', Continues releases))"
  unfolding main_def using generate_prompt_nonempty by (simp add: Let_def)

lemmas eval_paths =
  MAIN_DOC_PACKAGES_def changelogOf_def exampleRoot_def pathJoin_def normalize_def Let_def
  ascii_def

text \<open>
  C7. Reading a readable file, \<open>extractLatestRelease\<close> never throws, whatever the text:
  none of its property reads meets \<open>undefined\<close>, and it returns the release or
  \<open>null\<close>, the result of \<open>extractFromContent\<close>. It throws exactly when the file cannot
  be read, and then it throws the error of \<open>readFileSync\<close>, so that \<open>null\<close> and a read
  failure are different results. The caller keeps them apart: when one of the changelogs
  exists and cannot be read, \<open>main\<close> ends with status 1, and when none is unreadable
  the loop over the packages ends without an exception, whatever the texts are.
\<close>

theorem C7_failure_classes:
  "(\<forall>text. fs path = File text \<longrightarrow>
      extractLatestRelease fs path pkg = Inr (extractFromContent text pkg)) \<and>
   (fs path = Missing \<or> fs path = Unreadable \<longrightarrow>
      extractLatestRelease fs path pkg = Inl (ReadError path)) \<and>
   extractLatestRelease fs path pkg \<noteq> Inl TypeError \<and>
   ((\<exists>p \<in> set MAIN_DOC_PACKAGES. fs (changelogOf repoRoot p) = Unreadable) \<longrightarrow>
      snd (main fs repoRoot (ascii ''generate-prompt'' # args)) = ProcessExit 1) \<and>
   ((\<forall>p \<in> set MAIN_DOC_PACKAGES. fs (changelogOf repoRoot p) \<noteq> Unreadable) \<longrightarrow>
      (\<exists>out' releases.
         collectReleases fs (pathJoin [repoRoot, ascii ''packages'']) verbose MAIN_DOC_PACKAGES
           out [] = (out', Inr releases)))"
proof (intro conjI allI impI)
  fix t assume "fs path = File t"
  then show "extractLatestRelease fs path pkg = Inr (extractFromContent t pkg)"
    by (rule extractLatestRelease_readable)
next
  assume "fs path = Missing \<or> fs path = Unreadable"
  then show "extractLatestRelease fs path pkg = Inl (ReadError path)"
    by (rule extractLatestRelease_unreadable)
next
  show "extractLatestRelease fs path pkg \<noteq> Inl TypeError"
  proof (cases "fs path")
    case (File t)
    then show ?thesis by (simp add: extractLatestRelease_readable)
  qed (simp_all add: extractLatestRelease_unreadable)
next
  assume u: "\<exists>p \<in> set MAIN_DOC_PACKAGES. fs (changelogOf repoRoot p) = Unreadable"
  let ?v = "ascii ''--verbose'' \<in> set (ascii ''generate-prompt'' # args)"
  let ?dir = "pathJoin [repoRoot, ascii ''packages'']"
  let ?out = "if ?v then [ascii ''Repo root: '' @ repoRoot, ascii ''Packages dir: '' @ ?dir] else []"
  from u have "\<exists>p \<in> set MAIN_DOC_PACKAGES. fs (pathJoin [?dir, p, ascii ''CHANGELOG.md'']) = Unreadable"
    by (simp only: changelogOf_def)
  with collectReleases_error_iff [of fs ?dir ?v MAIN_DOC_PACKAGES ?out "[]"]
  obtain out' e where "collectReleases fs ?dir ?v MAIN_DOC_PACKAGES ?out [] = (out', Inl e)"
    by blast
  then show "snd (main fs repoRoot (ascii ''generate-prompt'' # args)) = ProcessExit 1"
    by (simp add: main_generate_prompt Let_def)
next
  assume n: "\<forall>p \<in> set MAIN_DOC_PACKAGES. fs (changelogOf repoRoot p) \<noteq> Unreadable"
  let ?dir = "pathJoin [repoRoot, ascii ''packages'']"
  obtain out' r where c: "collectReleases fs ?dir verbose MAIN_DOC_PACKAGES out [] = (out', r)"
    by (cases "collectReleases fs ?dir verbose MAIN_DOC_PACKAGES out []")
  from n have "\<not> (\<exists>p \<in> set MAIN_DOC_PACKAGES. fs (pathJoin [?dir, p, ascii ''CHANGELOG.md'']) = Unreadable)"
    by (simp only: changelogOf_def) blast
  with collectReleases_error_iff [of fs ?dir verbose MAIN_DOC_PACKAGES out "[]"] c
  have "\<not> (\<exists>e. r = Inl e)" by simp
  then obtain releases where "r = Inr releases" by (cases r) auto
  with c show "\<exists>out' releases.
         collectReleases fs ?dir verbose MAIN_DOC_PACKAGES out [] = (out', Inr releases)"
    by blast
qed

theorem C7_failure_classes_witness:
  "exampleFs (changelogOf exampleRoot examplePackage) = File exampleVersionBump \<and>
   extractLatestRelease exampleFs (changelogOf exampleRoot examplePackage) examplePackage = Inr None \<and>
   exampleFsUnreadable (changelogOf exampleRoot (ascii ''react-instantsearch'')) = Unreadable \<and>
   extractLatestRelease exampleFsUnreadable (changelogOf exampleRoot (ascii ''react-instantsearch''))
       (ascii ''react-instantsearch'') =
     Inl (ReadError (changelogOf exampleRoot (ascii ''react-instantsearch''))) \<and>
   ascii ''react-instantsearch'' \<in> set MAIN_DOC_PACKAGES \<and>
   snd (main exampleFsUnreadable exampleRoot (ascii ''generate-prompt'' # [])) = ProcessExit 1 \<and>
   MAIN_DOC_PACKAGES =
     [ascii ''instantsearch.js'', ascii ''react-instantsearch'', ascii ''vue-instantsearch''] \<and>
   exampleFs (changelogOf exampleRoot (ascii ''instantsearch.js'')) \<noteq> Unreadable \<and>
   exampleFs (changelogOf exampleRoot (ascii ''react-instantsearch'')) \<noteq> Unreadable \<and>
   exampleFs (changelogOf exampleRoot (ascii ''vue-instantsearch'')) \<noteq> Unreadable \<and>
   (\<exists>out' releases.
      collectReleases exampleFs (pathJoin [exampleRoot, ascii ''packages'']) False
        MAIN_DOC_PACKAGES [] [] = (out', Inr releases))"
proof -
  have 1: "exampleFs (changelogOf exampleRoot examplePackage) = File exampleVersionBump"
    by (simp add: eval_paths exampleFs_def examplePackage_def)
  have 2: "exampleFsUnreadable (changelogOf exampleRoot (ascii ''react-instantsearch'')) = Unreadable"
    by (simp add: eval_paths exampleFsUnreadable_def)
  have 3: "ascii ''react-instantsearch'' \<in> set MAIN_DOC_PACKAGES"
    by (simp add: MAIN_DOC_PACKAGES_def)
  have 4: "exampleFs (changelogOf exampleRoot (ascii ''instantsearch.js'')) \<noteq> Unreadable"
      "exampleFs (changelogOf exampleRoot (ascii ''react-instantsearch'')) \<noteq> Unreadable"
      "exampleFs (changelogOf exampleRoot (ascii ''vue-instantsearch'')) \<noteq> Unreadable"
    by (simp_all add: eval_paths exampleFs_def)
  have 5: "MAIN_DOC_PACKAGES =
     [ascii ''instantsearch.js'', ascii ''react-instantsearch'', ascii ''vue-instantsearch'']"
    by (rule MAIN_DOC_PACKAGES_def)
  from 4 have 6: "\<forall>p \<in> set MAIN_DOC_PACKAGES. exampleFs (changelogOf exampleRoot p) \<noteq> Unreadable"
    by (simp add: MAIN_DOC_PACKAGES_def)
  note a = C7_failure_classes [of exampleFs "changelogOf exampleRoot examplePackage"
      examplePackage exampleRoot "[]" False "[]"]
  note b = C7_failure_classes [of exampleFsUnreadable
      "changelogOf exampleRoot (ascii ''react-instantsearch'')" "ascii ''react-instantsearch''"
      exampleRoot "[]" False "[]"]
  from a 1 have 7: "extractLatestRelease exampleFs (changelogOf exampleRoot examplePackage)
      examplePackage = Inr None"
    by (simp add: exampleVersionBump_extract)
  from b 2 have 8: "extractLatestRelease exampleFsUnreadable
       (changelogOf exampleRoot (ascii ''react-instantsearch'')) (ascii ''react-instantsearch'') =
     Inl (ReadError (changelogOf exampleRoot (ascii ''react-instantsearch'')))"
    by blast
  from b 2 3 have 9: "snd (main exampleFsUnreadable exampleRoot (ascii ''generate-prompt'' # [])) =
      ProcessExit 1" by blast
  from a 6 have 10: "\<exists>out' releases.
      collectReleases exampleFs (pathJoin [exampleRoot, ascii ''packages'']) False
        MAIN_DOC_PACKAGES [] [] = (out', Inr releases)"
    by blast
  from 1 2 3 4 5 7 8 9 10 show ?thesis by blast
qed

text \<open>
  C8. When no package yields a release (its changelog is missing, or
  \<open>extractLatestRelease\<close> returns \<open>null\<close> on it), the command
  \<^verbatim>\<open>generate-prompt\<close> prints that no package needs documentation and ends with
  \<open>process.exit(0)\<close>.
\<close>

theorem C8_nothing_to_do:
  assumes "\<forall>p \<in> set MAIN_DOC_PACKAGES.
             fs (changelogOf repoRoot p) = Missing \<or>
             (\<exists>t. fs (changelogOf repoRoot p) = File t \<and> extractFromContent t p = None)"
  shows "snd (main fs repoRoot (ascii ''generate-prompt'' # args)) = ProcessExit 0 \<and>
         last (fst (main fs repoRoot (ascii ''generate-prompt'' # args))) =
           ascii ''No packages with documentation needs detected''"
proof -
  let ?v = "ascii ''--verbose'' \<in> set (ascii ''generate-prompt'' # args)"
  let ?dir = "pathJoin [repoRoot, ascii ''packages'']"
  let ?out = "if ?v then [ascii ''Repo root: '' @ repoRoot, ascii ''Packages dir: '' @ ?dir] else []"
  from assms have "\<forall>p \<in> set MAIN_DOC_PACKAGES.
        fs (pathJoin [?dir, p, ascii ''CHANGELOG.md'']) = Missing \<or>
        (\<exists>t. fs (pathJoin [?dir, p, ascii ''CHANGELOG.md'']) = File t \<and> extractFromContent t p = None)"
    by (simp only: changelogOf_def)
  from collectReleases_none [OF this, of ?v ?out "[]"]
  obtain out' where "collectReleases fs ?dir ?v MAIN_DOC_PACKAGES ?out [] = (out', Inr [])"
    by blast
  then show ?thesis
    by (simp add: main_generate_prompt Let_def)
qed

theorem C8_nothing_to_do_witness:
  "MAIN_DOC_PACKAGES =
     [ascii ''instantsearch.js'', ascii ''react-instantsearch'', ascii ''vue-instantsearch''] \<and>
   exampleFs (changelogOf exampleRoot (ascii ''instantsearch.js'')) = File exampleVersionBump \<and>
   extractFromContent exampleVersionBump (ascii ''instantsearch.js'') = None \<and>
   exampleFs (changelogOf exampleRoot (ascii ''react-instantsearch'')) = File exampleNoHeading \<and>
   extractFromContent exampleNoHeading (ascii ''react-instantsearch'') = None \<and>
   exampleFs (changelogOf exampleRoot (ascii ''vue-instantsearch'')) = Missing \<and>
   snd (main exampleFs exampleRoot (ascii ''generate-prompt'' # [])) = ProcessExit 0 \<and>
   last (fst (main exampleFs exampleRoot (ascii ''generate-prompt'' # []))) =
     ascii ''No packages with documentation needs detected''"
proof -
  have 1: "exampleFs (changelogOf exampleRoot (ascii ''instantsearch.js'')) = File exampleVersionBump"
    and 2: "exampleFs (changelogOf exampleRoot (ascii ''react-instantsearch'')) = File exampleNoHeading"
    and 3: "exampleFs (changelogOf exampleRoot (ascii ''vue-instantsearch'')) = Missing"
    by (simp_all add: eval_paths exampleFs_def)
  have h: "\<forall>p \<in> set MAIN_DOC_PACKAGES.
      exampleFs (changelogOf exampleRoot p) = Missing \<or>
      (\<exists>t. exampleFs (changelogOf exampleRoot p) = File t \<and> extractFromContent t p = None)"
    using 1 2 3
    by (simp add: MAIN_DOC_PACKAGES_def exampleVersionBump_extract exampleNoHeading_extract)
  from C8_nothing_to_do [OF h, of "[]"] 1 2 3 show ?thesis
    by (simp add: MAIN_DOC_PACKAGES_def exampleVersionBump_extract exampleNoHeading_extract)
qed

end
